theory Spec2Isabelle
  imports Main "HOL-Library.Multiset" "HOL-Library.AList"
begin

section \<open>Common notions\<close>

text \<open>
  Identifiers are strings, as in the TypeScript sources. A JavaScript condition such as
  \<open>if (data.videoUrl)\<close> tests truthiness: an optional string passes when it is present
  and not the empty string.
\<close>

type_synonym guild_id = string
type_synonym twitch_id = string
type_synonym msg_id = string
type_synonym channel_id = string

fun truthy :: "string option \<Rightarrow> bool" where
  "truthy None = False"
| "truthy (Some s) = (s \<noteq> [])"

section \<open>The clip conversion pipeline (src/bot/clip-gif-processor.ts)\<close>

datatype processing_status = Pending | Processing | Complete | Failed
  \<comment> \<open>\<open>"pending" | "processing" | "complete" | "error"\<close>\<close>

text \<open>
  \<open>ClipDocumentData\<close>, with the three server timestamps the processor writes. Durations
  and timestamps are carried through unchanged, so they are natural numbers here.
\<close>

record clip_doc =
  videoUrl :: "string option"
  gifUrl :: "string option"
  gifStoragePath :: "string option"
  processingStatus :: "processing_status option"
  storageDestination :: "string option"
  errorMessage :: "string option"
  durationSeconds :: "nat option"
  processingStartedAt :: "nat option"
  errorAt :: "nat option"
  processedAt :: "nat option"

text \<open>
  A value caught by \<open>catch (error)\<close>: an \<open>Error\<close> object with its message, or any other
  thrown value with the text \<open>String(error)\<close> gives for it.
\<close>

datatype thrown = ErrorObject string | OtherValue string

fun message_of :: "thrown \<Rightarrow> string" where
  "message_of (ErrorObject m) = m"
| "message_of (OtherValue s) = s"

text \<open>
  The clip collection maps a document path to its data. \<open>markProcessing\<close> is the body of
  one transaction: it reads the stored document again and either returns \<open>null\<close> with the
  store untouched or writes \<open>processing\<close> and returns the data it read. The transaction is
  atomic, so it is one function from store to store; \<open>now\<close> is the server time.
\<close>

type_synonym clip_store = "string \<rightharpoonup> clip_doc"

definition markProcessing :: "nat \<Rightarrow> string \<Rightarrow> clip_store \<Rightarrow> clip_doc option \<times> clip_store" where
  "markProcessing now docRef db =
     (case db docRef of
        None \<Rightarrow> (None, db)
      | Some data \<Rightarrow>
          if \<not> truthy (videoUrl data) then (None, db)
          else if truthy (gifUrl data) \<or> processingStatus data = Some Processing
                  \<or> processingStatus data = Some Complete then (None, db)
          else (Some data,
                db(docRef \<mapsto> data\<lparr>processingStatus := Some Processing,
                                     processingStartedAt := Some now\<rparr>)))"

text \<open>
  \<open>doc.ref.update\<close> rejects when the document does not exist, and like every call to the
  document store it can be rejected by the service; the flag \<open>rejected\<close> is the service's
  answer. \<open>None\<close> is a rejected update, which writes nothing.
\<close>

definition updateDocWithError ::
  "bool \<Rightarrow> nat \<Rightarrow> string \<Rightarrow> thrown \<Rightarrow> clip_store \<Rightarrow> clip_store option" where
  "updateDocWithError rejected now docRef err db =
     (case db docRef of
        None \<Rightarrow> None
      | Some d \<Rightarrow>
          if rejected then None
          else Some (db(docRef \<mapsto> d\<lparr>processingStatus := Some Failed,
                                       errorMessage := Some (message_of err),
                                       errorAt := Some now\<rparr>)))"

definition finalizeDoc ::
  "thrown option \<Rightarrow> nat \<Rightarrow> string \<Rightarrow> string \<Rightarrow> string \<Rightarrow> nat \<Rightarrow> clip_store \<Rightarrow> thrown + clip_store" where
  "finalizeDoc rejected now docRef url storagePath duration db =
     (case db docRef of
        None \<Rightarrow> Inl (ErrorObject ''NOT_FOUND'')
      | Some d \<Rightarrow>
          (case rejected of
             Some e \<Rightarrow> Inl e
           | None \<Rightarrow>
               Inr (db(docRef \<mapsto> d\<lparr>gifUrl := Some url,
                                      gifStoragePath := Some storagePath,
                                      durationSeconds := Some duration,
                                      processingStatus := Some Complete,
                                      processedAt := Some now,
                                      errorMessage := None,
                                      errorAt := None\<rparr>))))"

text \<open>
  What the outside world answers during one run of \<open>processClipDoc\<close>. The download either
  gets a response that is not ok (then \<open>downloadMp4\<close> throws its own error, built from the
  status line), or fails for another reason, or succeeds. The other steps throw or succeed.
\<close>

datatype download_outcome = HttpNotOk string string | DownloadThrows thrown | Downloaded

record pipeline_env =
  transactionThrows :: "thrown option"
  mkdtempThrows :: "thrown option"
  download :: download_outcome
  probeThrows :: "thrown option"
  probedDuration :: "nat option"
  transcodeThrows :: "thrown option"
  uploadThrows :: "thrown option"
  gifStorageFolder :: "string option"
  publicUrl :: string
  finalizeRejected :: "thrown option"
  errorUpdateRejected :: bool
  serverTime :: nat

fun downloadMp4 :: "download_outcome \<Rightarrow> thrown + unit" where
  "downloadMp4 (HttpNotOk status statusText) =
     Inl (ErrorObject (''Failed to download clip: '' @ status @ '' '' @ statusText))"
| "downloadMp4 (DownloadThrows e) = Inl e"
| "downloadMp4 Downloaded = Inr ()"

text \<open>\<open>convertMp4ToGif\<close>: probe, then transcode; the duration is \<open>metadata.format?.duration ?? 0\<close>.\<close>

definition convertMp4ToGif :: "pipeline_env \<Rightarrow> thrown + nat" where
  "convertMp4ToGif env =
     (case probeThrows env of
        Some e \<Rightarrow> Inl e
      | None \<Rightarrow>
          (case transcodeThrows env of
             Some e \<Rightarrow> Inl e
           | None \<Rightarrow> Inr (case probedDuration env of None \<Rightarrow> 0 | Some d \<Rightarrow> d)))"

text \<open>
  \<open>String.prototype.trim\<close> removes white space and line terminators from both ends. A
  character is a code unit below 256 here, and among those the ones \<open>trim\<close> removes are
  tab, line feed, vertical tab, form feed, carriage return, space and no-break space.
  \<open>typeof s === "string" && s.trim()\<close> holds for a string with a character of another kind.
\<close>

definition isWhiteSpace :: "char \<Rightarrow> bool" where
  "isWhiteSpace ch = (of_char ch \<in> {9, 10, 11, 12, 13, 32, 160 :: nat})"

definition trim :: "string \<Rightarrow> string" where
  "trim s = rev (dropWhile isWhiteSpace (rev (dropWhile isWhiteSpace s)))"

fun nonBlank :: "string option \<Rightarrow> bool" where
  "nonBlank None = False"
| "nonBlank (Some s) = (trim s \<noteq> [])"

text \<open>
  \<open>getStorageDestination\<close>; \<open>folder\<close> is the environment variable \<open>GIF_STORAGE_FOLDER\<close>. The
  stored destination is returned as it is, not trimmed.
\<close>

definition getStorageDestination :: "string option \<Rightarrow> guild_id \<Rightarrow> string \<Rightarrow> clip_doc \<Rightarrow> string" where
  "getStorageDestination folder guildId docId data =
     (if nonBlank (storageDestination data) then the (storageDestination data)
      else if nonBlank (gifStoragePath data) then the (gifStoragePath data)
      else (if truthy folder then the folder else ''converted-clips'')
             @ ''/'' @ guildId @ ''/'' @ docId @ ''.gif'')"

text \<open>
  \<open>doc.id\<close> is the last segment of the document path \<open>doc.ref.path\<close>, the part after the
  last slash.
\<close>

definition docIdOf :: "string \<Rightarrow> string" where
  "docIdOf docRef = rev (takeWhile (\<lambda>ch. ch \<noteq> CHR ''/'') (rev docRef))"

text \<open>
  The inner \<open>try\<close> block of \<open>processClipDoc\<close>: download, convert, upload, finalize.
  \<open>makePublic\<close> failures are swallowed by its own \<open>catch\<close>, and the \<open>finally\<close> only removes
  the scratch directory, so neither changes the outcome.
\<close>

definition convertAndFinalize ::
  "pipeline_env \<Rightarrow> guild_id \<Rightarrow> string \<Rightarrow> clip_doc \<Rightarrow> clip_store \<Rightarrow> thrown + clip_store" where
  "convertAndFinalize env guildId docRef originalData db =
     (case downloadMp4 (download env) of
        Inl e \<Rightarrow> Inl e
      | Inr _ \<Rightarrow>
          (case convertMp4ToGif env of
             Inl e \<Rightarrow> Inl e
           | Inr duration \<Rightarrow>
               (case uploadThrows env of
                  Some e \<Rightarrow> Inl e
                | None \<Rightarrow>
                    finalizeDoc (finalizeRejected env) (serverTime env) docRef (publicUrl env)
                      (getStorageDestination (gifStorageFolder env) guildId (docIdOf docRef) originalData)
                      duration db)))"

record clip_world =
  clipDocs :: clip_store
  processingDocs :: "string set"

datatype run_result = Skipped | NotClaimed | Converted | MarkedFailed | Rejected

text \<open>
  \<open>processClipDoc\<close> for the snapshot \<open>snap\<close> of the document at \<open>docRef\<close>. The result says how
  the call ended: \<open>Rejected\<close> is a call whose error update was itself rejected, so the promise
  rejects. After the guards the key is added to \<open>processingDocs\<close>, and the \<open>finally\<close> takes
  it out again however the run ends.
\<close>

definition processClipDoc ::
  "pipeline_env \<Rightarrow> guild_id \<Rightarrow> string \<Rightarrow> clip_doc \<Rightarrow> clip_world \<Rightarrow> run_result \<times> clip_world" where
  "processClipDoc env guildId docRef snap w =
     (if docRef \<in> processingDocs w then (Skipped, w)
      else if truthy (gifUrl snap) \<or> processingStatus snap = Some Complete then (Skipped, w)
      else
        let attempt =
          (case transactionThrows env of
             Some e \<Rightarrow> (Inl e, clipDocs w)
           | None \<Rightarrow>
               (case markProcessing (serverTime env) docRef (clipDocs w) of
                  (None, db) \<Rightarrow> (Inr NotClaimed, db)
                | (Some originalData, db) \<Rightarrow>
                    if \<not> truthy (videoUrl originalData) then
                      (case db docRef of
                         None \<Rightarrow> (Inl (ErrorObject ''NOT_FOUND''), db)
                       | Some d \<Rightarrow>
                           (Inr MarkedFailed,
                            db(docRef \<mapsto> d\<lparr>processingStatus := Some Failed,
                                   errorMessage := Some ''Missing videoUrl for conversion.'',
                                   errorAt := Some (serverTime env)\<rparr>)))
                    else
                      (case mkdtempThrows env of
                         Some e \<Rightarrow> (Inl e, db)
                       | None \<Rightarrow>
                           (case convertAndFinalize env guildId docRef originalData db of
                              Inl e \<Rightarrow> (Inl e, db)
                            | Inr db' \<Rightarrow> (Inr Converted, db')))))
          ; released = insert docRef (processingDocs w) - {docRef}
        in (case attempt of
              (Inr r, db) \<Rightarrow> (r, w\<lparr>clipDocs := db, processingDocs := released\<rparr>)
            | (Inl e, db) \<Rightarrow>
                (case updateDocWithError (errorUpdateRejected env) (serverTime env) docRef e db of
                   None \<Rightarrow> (Rejected, w\<lparr>clipDocs := db, processingDocs := released\<rparr>)
                 | Some db' \<Rightarrow>
                     (MarkedFailed, w\<lparr>clipDocs := db', processingDocs := released\<rparr>))))"

text \<open>
  The callback that \<open>startClipGifProcessing\<close> gives to \<open>onSnapshot\<close>, for one document change:
  a change that is not a removal starts \<open>processClipDoc\<close> on the changed document. The
  listener gets a change for every write to the collection, those of the processor included.
\<close>

datatype change_type = ChangeAdded | ChangeModified | ChangeRemoved

definition snapshotChange ::
  "pipeline_env \<Rightarrow> guild_id \<Rightarrow> change_type \<Rightarrow> string \<Rightarrow> clip_doc \<Rightarrow> clip_world \<Rightarrow> run_result \<times> clip_world" where
  "snapshotChange env guildId changeType docRef snap w =
     (if changeType = ChangeRemoved then (Skipped, w)
      else processClipDoc env guildId docRef snap w)"

text \<open>The first step of the conversion that fails in \<open>env\<close>, with the value it throws.\<close>

definition conversionFailure :: "pipeline_env \<Rightarrow> thrown option" where
  "conversionFailure env =
     (case mkdtempThrows env of
        Some e \<Rightarrow> Some e
      | None \<Rightarrow>
          (case downloadMp4 (download env) of
             Inl e \<Rightarrow> Some e
           | Inr _ \<Rightarrow>
               (case convertMp4ToGif env of
                  Inl e \<Rightarrow> Some e
                | Inr _ \<Rightarrow>
                    (case uploadThrows env of
                       Some e \<Rightarrow> Some e
                     | None \<Rightarrow> finalizeRejected env))))"

section \<open>Live entities and their order\<close>

text \<open>
  \<open>getUsersFromDb\<close> returns the user documents and \<open>getTwitchStreams\<close> the streams that are
  live. Fields that only feed the card's text are left out. \<open>started_at\<close> is the number
  \<open>new Date(started_at).getTime()\<close>, milliseconds since the epoch.
\<close>

record db_user =
  twitchId :: twitch_id
  displayName :: string

record stream =
  user_id :: twitch_id
  stream_started_at :: int

record live_user =
  live_twitchId :: twitch_id
  live_displayName :: string
  started_at :: int

text \<open>
  \<open>new Map(liveStreams.map(s => [s.user_id, s]))\<close>: a later stream of the same user
  replaces an earlier one. Then each user with a stream becomes a live entity, in the
  order of the user documents.
\<close>

definition liveStreamMap :: "stream list \<Rightarrow> twitch_id \<rightharpoonup> stream" where
  "liveStreamMap liveStreams = map_of (rev (map (\<lambda>s. (user_id s, s)) liveStreams))"

definition mergeLive :: "stream list \<Rightarrow> db_user list \<Rightarrow> live_user list" where
  "mergeLive liveStreams dbUsers =
     List.map_filter
       (\<lambda>user. case liveStreamMap liveStreams (twitchId user) of
                  None \<Rightarrow> None
                | Some streamData \<Rightarrow>
                    Some \<lparr>live_twitchId = twitchId user,
                          live_displayName = displayName user,
                          started_at = stream_started_at streamData\<rparr>)
       dbUsers"

text \<open>
  \<open>.sort((a, b) => time(a) - time(b))\<close>: \<open>Array.prototype.sort\<close> is stable, and a stable sort
  by a key has one result, the one \<open>sort_key\<close> computes.
\<close>

definition sortByStart :: "live_user list \<Rightarrow> live_user list" where
  "sortByStart users = sort_key started_at users"

definition sortedLiveUsers :: "stream list \<Rightarrow> db_user list \<Rightarrow> live_user list" where
  "sortedLiveUsers liveStreams dbUsers = sortByStart (mergeLive liveStreams dbUsers)"


section \<open>The messaging surface and the tracker state\<close>

text \<open>
  A channel is the list of the ids of its messages, oldest first. A message is sent with a
  payload; the payload here names the embed builder that made it and the data the builder
  was given. A delete request names the stored reference it was issued for.
\<close>

datatype payload =
    HeaderEmbed
  | FooterEmbed nat
  | VipEmbed twitch_id
  | SpotlightEmbed twitch_id bool
  | ClipGifMessage twitch_id
  | HolderEmbed "twitch_id option"
  | LeaderboardMessage
  | QueueEmbed "twitch_id list"

datatype slot = CardSlot twitch_id | ClipSlot twitch_id | HighlightClipSlot | FooterSlot | ConfigSlot

datatype event =
    Sent channel_id payload msg_id
  | SendRejected channel_id payload
  | Edited channel_id msg_id payload
  | DeleteRequested channel_id slot msg_id
  | BulkDeleteRequested channel_id "msg_id list"

text \<open>
  \<open>replies\<close> are the answers the service will give to the coming \<open>channel.send\<close> calls, in
  order: the id of the new message, or \<open>None\<close> for a send that is rejected; a send beyond
  the list is rejected. \<open>bulkDeleteWorks\<close> is its answer to \<open>bulkDelete\<close>. \<open>events\<close> records
  every request made, oldest first.
\<close>

record discord =
  channels :: "channel_id \<rightharpoonup> msg_id list"
  replies :: "msg_id option list"
  bulkDeleteWorks :: bool
  events :: "event list"

definition send :: "channel_id \<Rightarrow> payload \<Rightarrow> discord \<Rightarrow> msg_id option \<times> discord" where
  "send c p d =
     (case replies d of
        [] \<Rightarrow> (None, d\<lparr>events := events d @ [SendRejected c p]\<rparr>)
      | answer # rest \<Rightarrow>
          (case (channels d c, answer) of
             (Some ms, Some m) \<Rightarrow>
               (Some m, d\<lparr>channels := (channels d)(c \<mapsto> ms @ [m]), replies := rest,
                           events := events d @ [Sent c p m]\<rparr>)
           | _ \<Rightarrow> (None, d\<lparr>replies := rest, events := events d @ [SendRejected c p]\<rparr>)))"

text \<open>\<open>channel.messages.fetch(id).catch(() => null)\<close>: the message, or \<open>null\<close>.\<close>

definition fetchMessage :: "channel_id \<Rightarrow> msg_id \<Rightarrow> discord \<Rightarrow> bool" where
  "fetchMessage c m d = (case channels d c of None \<Rightarrow> False | Some ms \<Rightarrow> m \<in> set ms)"

text \<open>\<open>channel.messages.fetch({ limit: 1 })\<close>, then \<open>first()\<close>: the newest message.\<close>

definition lastMessage :: "channel_id \<Rightarrow> discord \<Rightarrow> msg_id option" where
  "lastMessage c d =
     (case channels d c of None \<Rightarrow> None | Some ms \<Rightarrow> if ms = [] then None else Some (last ms))"

text \<open>
  \<open>channel.messages.delete(id).catch(...)\<close>: the request is made and its failure, if any, is
  swallowed. \<open>message.edit\<close> is called on a message that was just fetched.
\<close>

definition deleteMessage :: "channel_id \<Rightarrow> slot \<Rightarrow> msg_id \<Rightarrow> discord \<Rightarrow> discord" where
  "deleteMessage c sl m d =
     d\<lparr>channels := (case channels d c of
                       None \<Rightarrow> channels d
                     | Some ms \<Rightarrow> (channels d)(c \<mapsto> removeAll m ms)),
       events := events d @ [DeleteRequested c sl m]\<rparr>"

definition editMessage :: "channel_id \<Rightarrow> msg_id \<Rightarrow> payload \<Rightarrow> discord \<Rightarrow> discord" where
  "editMessage c m p d = d\<lparr>events := events d @ [Edited c m p]\<rparr>"

text \<open>\<open>channel.bulkDelete(ids, true)\<close>: \<open>True\<close> when it resolves, \<open>False\<close> when it rejects.\<close>

definition bulkDelete :: "channel_id \<Rightarrow> msg_id list \<Rightarrow> discord \<Rightarrow> bool \<times> discord" where
  "bulkDelete c ids d =
     (if bulkDeleteWorks d then
        (True, d\<lparr>channels := (case channels d c of
                                 None \<Rightarrow> channels d
                               | Some ms \<Rightarrow> (channels d)(c \<mapsto> filter (\<lambda>m. m \<notin> set ids) ms)),
                  events := events d @ [BulkDeleteRequested c ids]\<rparr>)
      else (False, d\<lparr>events := events d @ [BulkDeleteRequested c ids]\<rparr>))"

text \<open>\<open>[...].filter(Boolean)\<close> on optional ids.\<close>

definition filterBoolean :: "string option list \<Rightarrow> string list" where
  "filterBoolean ids = map the (filter truthy ids)"

text \<open>
  What one pass reads from the user collection, the streaming service and the clip
  builder: the ids of the roster, the streams that are live, the user documents, and
  whether \<open>buildClipGifMessageOptions\<close> returns message options for a broadcaster.
\<close>

record feed =
  rosterIds :: "twitch_id list"
  liveStreams :: "stream list"
  dbUsers :: "db_user list"
  clipFor :: "twitch_id \<Rightarrow> bool"

definition getUsersFromDb :: "feed \<Rightarrow> db_user list" where
  "getUsersFromDb fd = (if rosterIds fd = [] then [] else dbUsers fd)"

text \<open>
  The state of one tracker module: its two module-level objects \<open>activeTrackers\<close> and
  \<open>messageStore\<close>, the settings documents of the document store, the messaging surface,
  and the timers of the event loop (the \<open>setInterval\<close> registrations that are alive, each
  with its handle, and the \<open>setTimeout\<close> callbacks that have not fired yet).
\<close>

record ('s, 'c) tracker_world =
  activeTrackers :: "guild_id \<rightharpoonup> nat"
  messageStore :: "guild_id \<rightharpoonup> 's"
  configDocs :: "guild_id \<rightharpoonup> 'c"
  discord :: discord
  intervals :: "(nat \<times> guild_id) list"
  timeouts :: "guild_id list"
  nextHandle :: nat

text \<open>\<open>if (activeTrackers[guildId]) { clearInterval(...); delete activeTrackers[guildId]; }\<close>\<close>

definition clearTracker :: "guild_id \<Rightarrow> ('s, 'c, 'z) tracker_world_scheme \<Rightarrow> ('s, 'c, 'z) tracker_world_scheme" where
  "clearTracker g w =
     (case activeTrackers w g of
        None \<Rightarrow> w
      | Some h \<Rightarrow> w\<lparr>intervals := filter (\<lambda>hg. fst hg \<noteq> h) (intervals w),
                    activeTrackers := (activeTrackers w)(g := None)\<rparr>)"

text \<open>\<open>setInterval(...)\<close> followed by \<open>activeTrackers[guildId] = interval\<close>.\<close>

definition registerInterval :: "guild_id \<Rightarrow> ('s, 'c, 'z) tracker_world_scheme \<Rightarrow> ('s, 'c, 'z) tracker_world_scheme" where
  "registerInterval g w =
     w\<lparr>intervals := intervals w @ [(nextHandle w, g)],
       activeTrackers := (activeTrackers w)(g \<mapsto> nextHandle w),
       nextHandle := Suc (nextHandle w)\<rparr>"

text \<open>The interval timers that are alive for a guild.\<close>

definition timersOf :: "guild_id \<Rightarrow> ('s, 'c, 'z) tracker_world_scheme \<Rightarrow> nat list" where
  "timersOf g w = map fst (filter (\<lambda>hg. snd hg = g) (intervals w))"

text \<open>
  \<open>set(data, { merge: true })\<close> merges a map field key by key and keeps the keys the data
  does not name; an empty map replaces the stored one.
\<close>

definition mergeMapField :: "('k \<times> 'v) list option \<Rightarrow> ('k \<times> 'v) list \<Rightarrow> ('k \<times> 'v) list" where
  "mergeMapField old new =
     (if new = [] then [] else case old of None \<Rightarrow> new | Some m \<Rightarrow> AList.merge m new)"

datatype outcome = NotConfigured | ChannelNotFound | StoreMissing | Aborted | Completed

section \<open>The VIP tracker (src/bot/vip-tracker.ts)\<close>

text \<open>
  A JavaScript object used as a dictionary is an association list with one entry per key:
  \<open>map_of\<close> reads a key, \<open>AList.update\<close> assigns one (in place, or at the end when the key
  is new), \<open>AList.delete\<close> removes one, and the list order is the order in which the keys
  are enumerated.
\<close>

type_synonym id_map = "(twitch_id \<times> msg_id) list"

record vip_store =
  headerId :: "msg_id option"
  footerId :: "msg_id option"
  vipMessageIds :: id_map
  vipClipMessageIds :: id_map

record vip_config =
  cfg_channelId :: "channel_id option"
  cfg_headerId :: "msg_id option"
  cfg_footerId :: "msg_id option"
  cfg_vipMessageIds :: "id_map option"
  cfg_vipClipMessageIds :: "id_map option"

type_synonym vip_world = "(vip_store, vip_config) tracker_world"

definition emptyVipStore :: vip_store where
  "emptyVipStore = \<lparr>headerId = None, footerId = None, vipMessageIds = [], vipClipMessageIds = []\<rparr>"

text \<open>\<open>data.vipMessageIds || {}\<close>\<close>

definition orEmpty :: "'a list option \<Rightarrow> 'a list" where
  "orEmpty m = (case m of None \<Rightarrow> [] | Some xs \<Rightarrow> xs)"

text \<open>A value that is \<open>undefined\<close> is not written, so a merge keeps the stored field.\<close>

definition orStored :: "'a option \<Rightarrow> 'a option \<Rightarrow> 'a option" where
  "orStored new old = (case new of None \<Rightarrow> old | Some v \<Rightarrow> Some v)"

definition loadVipChannelConfig :: "guild_id \<Rightarrow> vip_world \<Rightarrow> vip_config option \<times> vip_world" where
  "loadVipChannelConfig g w =
     (case configDocs w g of
        None \<Rightarrow> (None, w)
      | Some data \<Rightarrow>
          let store = (case messageStore w g of None \<Rightarrow> emptyVipStore | Some s \<Rightarrow> s)
          in (Some data,
              w\<lparr>messageStore := (messageStore w)(g \<mapsto>
                   store\<lparr>headerId := cfg_headerId data,
                         footerId := cfg_footerId data,
                         vipMessageIds := orEmpty (cfg_vipMessageIds data),
                         vipClipMessageIds := orEmpty (cfg_vipClipMessageIds data)\<rparr>)\<rparr>))"

definition setVipLiveChannel ::
  "guild_id \<Rightarrow> channel_id \<Rightarrow> msg_id option \<Rightarrow> msg_id option \<Rightarrow> id_map \<Rightarrow> id_map \<Rightarrow> vip_world \<Rightarrow> vip_world" where
  "setVipLiveChannel g channelId hId fId cards clips w =
     (let old = configDocs w g;
          doc = \<lparr>cfg_channelId = Some channelId,
                 cfg_headerId = orStored hId (Option.bind old cfg_headerId),
                 cfg_footerId = orStored fId (Option.bind old cfg_footerId),
                 cfg_vipMessageIds = Some (mergeMapField (Option.bind old cfg_vipMessageIds) cards),
                 cfg_vipClipMessageIds =
                   Some (mergeMapField (Option.bind old cfg_vipClipMessageIds) clips)\<rparr>;
          store = (case messageStore w g of None \<Rightarrow> emptyVipStore | Some s \<Rightarrow> s)
      in w\<lparr>configDocs := (configDocs w)(g \<mapsto> doc),
           messageStore := (messageStore w)(g \<mapsto>
             store\<lparr>headerId := hId, footerId := fId,
                   vipMessageIds := cards, vipClipMessageIds := clips\<rparr>)\<rparr>)"

text \<open>One round of the loop "Cleanup for users who went offline".\<close>

definition cleanupOfflineVip ::
  "channel_id \<Rightarrow> twitch_id set \<Rightarrow> twitch_id \<Rightarrow> vip_store \<times> discord \<Rightarrow> vip_store \<times> discord" where
  "cleanupOfflineVip c liveVipIds x sd =
     (case sd of (store, d) \<Rightarrow>
        if x \<in> liveVipIds then (store, d)
        else
          let d1 = (case map_of (vipMessageIds store) x of
                      None \<Rightarrow> d
                    | Some messageId \<Rightarrow> deleteMessage c (CardSlot x) messageId d);
              store1 = store\<lparr>vipMessageIds := AList.delete x (vipMessageIds store)\<rparr>
          in (case map_of (vipClipMessageIds store1) x of
                None \<Rightarrow> (store1, d1)
              | Some clipMessageId \<Rightarrow>
                  if clipMessageId = [] then (store1, d1)
                  else (store1\<lparr>vipClipMessageIds := AList.delete x (vipClipMessageIds store1)\<rparr>,
                        deleteMessage c (ClipSlot x) clipMessageId d1)))"

text \<open>
  The first half of a round of the loop "Update or post for live VIPs": edit the card
  when its message is stored and can be fetched, send a new card otherwise. \<open>Inl\<close> is a
  send that threw, with the state reached.
\<close>

definition updateVipCard ::
  "channel_id \<Rightarrow> twitch_id \<Rightarrow> vip_store \<times> discord \<Rightarrow> (vip_store \<times> discord) + (vip_store \<times> discord)" where
  "updateVipCard c x sd =
     (case sd of (store, d) \<Rightarrow>
        let messageId = map_of (vipMessageIds store) x
        in if truthy messageId \<and> fetchMessage c (the messageId) d
           then Inr (store, editMessage c (the messageId) (VipEmbed x) d)
           else (case send c (VipEmbed x) d of
                   (None, d') \<Rightarrow> Inl (store, d')
                 | (Some newId, d') \<Rightarrow>
                     Inr (store\<lparr>vipMessageIds := AList.update x newId (vipMessageIds store)\<rparr>, d')))"

text \<open>
  The second half: "Post a new clip, and only delete the old one after." A clip send that
  throws is caught, and the old clip message is deleted all the same.
\<close>

definition replaceVipClip ::
  "channel_id \<Rightarrow> (twitch_id \<Rightarrow> bool) \<Rightarrow> twitch_id \<Rightarrow> vip_store \<times> discord \<Rightarrow> vip_store \<times> discord" where
  "replaceVipClip c clips x sd =
     (case sd of (store, d) \<Rightarrow>
        let oldClipMessageId = map_of (vipClipMessageIds store) x;
            posted =
              (if clips x then
                 (case send c (ClipGifMessage x) d of
                    (Some newId, d') \<Rightarrow>
                      (store\<lparr>vipClipMessageIds := AList.update x newId (vipClipMessageIds store)\<rparr>, d')
                  | (None, d') \<Rightarrow> (store, d'))
               else (store, d))
        in if truthy oldClipMessageId
           then (fst posted, deleteMessage c (ClipSlot x) (the oldClipMessageId) (snd posted))
           else posted)"

fun updateLiveVips ::
  "channel_id \<Rightarrow> (twitch_id \<Rightarrow> bool) \<Rightarrow> twitch_id list \<Rightarrow> vip_store \<times> discord
     \<Rightarrow> (vip_store \<times> discord) + (vip_store \<times> discord)" where
  "updateLiveVips c clips [] sd = Inr sd"
| "updateLiveVips c clips (x # rest) sd =
     (case updateVipCard c x sd of
        Inl sd' \<Rightarrow> Inl sd'
      | Inr sd' \<Rightarrow> updateLiveVips c clips rest (replaceVipClip c clips x sd'))"

text \<open>"Update footer": re-post it when it is not the newest message, edit it otherwise.\<close>

definition refreshVipFooter ::
  "channel_id \<Rightarrow> bool \<Rightarrow> nat \<Rightarrow> vip_store \<times> discord \<Rightarrow> (vip_store \<times> discord) + (vip_store \<times> discord)" where
  "refreshVipFooter c isInitialCheck n sd =
     (case sd of (store, d) \<Rightarrow>
        if truthy (footerId store) \<and> fetchMessage c (the (footerId store)) d then
          (if lastMessage c d \<noteq> None \<and> lastMessage c d \<noteq> footerId store then
             (case send c (FooterEmbed n) (deleteMessage c FooterSlot (the (footerId store)) d) of
                (None, d') \<Rightarrow> Inl (store, d')
              | (Some newId, d') \<Rightarrow> Inr (store\<lparr>footerId := Some newId\<rparr>, d'))
           else Inr (store, editMessage c (the (footerId store)) (FooterEmbed n) d))
        else if \<not> isInitialCheck then
          (case send c (FooterEmbed n) d of
             (None, d') \<Rightarrow> Inl (store, d')
           | (Some newId, d') \<Rightarrow> Inr (store\<lparr>footerId := Some newId\<rparr>, d'))
        else Inr (store, d))"

text \<open>The branch for a roster without ids: it returns before anything is persisted.\<close>

definition clearAllVips :: "channel_id \<Rightarrow> vip_store \<times> discord \<Rightarrow> vip_store \<times> discord" where
  "clearAllVips c sd =
     (case sd of (store, d) \<Rightarrow>
        let d1 = fold (\<lambda>(x, messageId). deleteMessage c (CardSlot x) messageId) (vipMessageIds store) d;
            d2 = fold (\<lambda>(x, messageId). deleteMessage c (ClipSlot x) messageId) (vipClipMessageIds store) d1;
            store' = store\<lparr>vipMessageIds := [], vipClipMessageIds := []\<rparr>
        in if truthy (footerId store') \<and> fetchMessage c (the (footerId store')) d2
           then (store', editMessage c (the (footerId store')) (FooterEmbed 0) d2)
           else (store', d2))"

text \<open>
  The body of the pass once the channel and the store are known: clean up, update, refresh
  the footer. The list of VIPs is not sorted in this tracker.
\<close>

definition reconcileVips ::
  "channel_id \<Rightarrow> bool \<Rightarrow> feed \<Rightarrow> vip_store \<times> discord \<Rightarrow> (vip_store \<times> discord) + (vip_store \<times> discord)" where
  "reconcileVips c isInitialCheck fd sd =
     (let liveVips = mergeLive (liveStreams fd) (getUsersFromDb fd);
          liveVipIds = map live_twitchId liveVips;
          postedVipIds = map fst (vipMessageIds (fst sd));
          sd1 = fold (cleanupOfflineVip c (set liveVipIds)) postedVipIds sd
      in (case updateLiveVips c (clipFor fd) liveVipIds sd1 of
            Inl sd2 \<Rightarrow> Inl sd2
          | Inr sd2 \<Rightarrow> refreshVipFooter c isInitialCheck (length liveVips) sd2))"

definition putVip :: "guild_id \<Rightarrow> vip_store \<times> discord \<Rightarrow> vip_world \<Rightarrow> vip_world" where
  "putVip g sd w = w\<lparr>messageStore := (messageStore w)(g \<mapsto> fst sd), discord := snd sd\<rparr>"

definition checkVips :: "guild_id \<Rightarrow> bool \<Rightarrow> feed \<Rightarrow> vip_world \<Rightarrow> outcome \<times> vip_world" where
  "checkVips g isInitialCheck fd w0 =
     (case loadVipChannelConfig g w0 of
        (None, w) \<Rightarrow> (NotConfigured, w)
      | (Some config, w) \<Rightarrow>
          if \<not> truthy (cfg_channelId config) then (NotConfigured, w)
          else
            let c = the (cfg_channelId config) in
            if channels (discord w) c = None then (ChannelNotFound, w)
            else
              let w1 = (case cfg_vipMessageIds config of
                          None \<Rightarrow> w
                        | Some ids \<Rightarrow>
                            w\<lparr>messageStore := (messageStore w)(g \<mapsto>
                              (case messageStore w g of None \<Rightarrow> emptyVipStore | Some s \<Rightarrow> s)
                                \<lparr>vipMessageIds := ids,
                                 vipClipMessageIds := orEmpty (cfg_vipClipMessageIds config)\<rparr>)\<rparr>)
              in if rosterIds fd = [] then
                   (case messageStore w1 g of
                      None \<Rightarrow> (Completed, w1\<lparr>discord := snd (clearAllVips c (emptyVipStore, discord w1))\<rparr>)
                    | Some store \<Rightarrow> (Completed, putVip g (clearAllVips c (store, discord w1)) w1))
                 else
                   (case messageStore w1 g of
                      None \<Rightarrow> (StoreMissing, w1)
                    | Some store \<Rightarrow>
                        (case reconcileVips c isInitialCheck fd (store, discord w1) of
                           Inl sd \<Rightarrow> (Aborted, putVip g sd w1)
                         | Inr sd \<Rightarrow>
                             (Completed,
                              setVipLiveChannel g c (headerId (fst sd)) (footerId (fst sd))
                                (vipMessageIds (fst sd)) (vipClipMessageIds (fst sd))
                                (putVip g sd w1)))))"

text \<open>
  \<open>startVipTracking\<close> only schedules a callback for ten seconds later. The callback loads
  the configuration, starts a pass (which goes on after the callback has returned) and
  registers the interval; only then is \<open>activeTrackers[guildId]\<close> assigned.
\<close>

definition startVipTracking :: "guild_id \<Rightarrow> vip_world \<Rightarrow> vip_world" where
  "startVipTracking g w =
     (if activeTrackers w g \<noteq> None then w else w\<lparr>timeouts := timeouts w @ [g]\<rparr>)"

definition vipTimeoutFires :: "feed \<Rightarrow> vip_world \<Rightarrow> vip_world" where
  "vipTimeoutFires fd w =
     (case timeouts w of
        [] \<Rightarrow> w
      | g # rest \<Rightarrow>
          let w1 = snd (loadVipChannelConfig g (w\<lparr>timeouts := rest\<rparr>))
          in snd (checkVips g False fd (registerInterval g w1)))"

definition vipIntervalFires :: "nat \<Rightarrow> feed \<Rightarrow> vip_world \<Rightarrow> vip_world" where
  "vipIntervalFires h fd w =
     (case map_of (intervals w) h of
        None \<Rightarrow> w
      | Some g \<Rightarrow> snd (checkVips g False fd w))"


text \<open>\<open>stopVipTracking\<close>, with the value it resolves to.\<close>

definition stopVipTracking :: "guild_id \<Rightarrow> vip_world \<Rightarrow> bool \<times> vip_world" where
  "stopVipTracking g w0 =
     (let w = clearTracker g w0
      in (case configDocs w g of
            None \<Rightarrow> (False, w)
          | Some config \<Rightarrow>
              if \<not> truthy (cfg_channelId config) then (False, w)
              else
                let c = the (cfg_channelId config);
                    w1 = (if channels (discord w) c = None then w
                          else
                            let wl = snd (loadVipChannelConfig g w);
                                messageIdsToDelete =
                                  filterBoolean
                                    ([cfg_headerId config, cfg_footerId config]
                                     @ map (Some \<circ> snd) (orEmpty (cfg_vipMessageIds config))
                                     @ map (Some \<circ> snd) (orEmpty (cfg_vipClipMessageIds config)))
                            in wl\<lparr>discord := fold (deleteMessage c ConfigSlot) messageIdsToDelete (discord wl)\<rparr>)
                in (True, w1\<lparr>configDocs := (configDocs w1)(g := None),
                             messageStore := (messageStore w1)(g := None)\<rparr>)))"

section \<open>The Community Pool tracker (src/bot/community-pool-tracker.ts)\<close>

record pool_store =
  pool_headerId :: "msg_id option"
  pool_footerId :: "msg_id option"
  userMessageIds :: id_map

record pool_config =
  pcfg_channelId :: "channel_id option"
  pcfg_headerId :: "msg_id option"
  pcfg_footerId :: "msg_id option"
  pcfg_userMessageIds :: "id_map option"
  spotlightTwitchId :: "twitch_id option"
  spotlightClipId :: "msg_id option"

text \<open>
  \<open>let spotlightIndex = 0\<close> is one variable of the module, next to the per-guild objects.
\<close>

record pool_world = "(pool_store, pool_config) tracker_world" +
  spotlightIndex :: nat

definition emptyPoolStore :: pool_store where
  "emptyPoolStore = \<lparr>pool_headerId = None, pool_footerId = None, userMessageIds = []\<rparr>"

definition loadCommunityPoolChannelConfig :: "guild_id \<Rightarrow> pool_world \<Rightarrow> pool_config option \<times> pool_world" where
  "loadCommunityPoolChannelConfig g w =
     (case configDocs w g of
        None \<Rightarrow> (None, w)
      | Some data \<Rightarrow>
          let store = (case messageStore w g of None \<Rightarrow> emptyPoolStore | Some s \<Rightarrow> s);
              store1 = store\<lparr>pool_headerId := pcfg_headerId data, pool_footerId := pcfg_footerId data\<rparr>;
              store2 = (case pcfg_userMessageIds data of
                          None \<Rightarrow> store1
                        | Some ids \<Rightarrow> store1\<lparr>userMessageIds := ids\<rparr>)
          in (Some data, w\<lparr>messageStore := (messageStore w)(g \<mapsto> store2)\<rparr>))"

definition setCommunityPoolChannel ::
  "guild_id \<Rightarrow> channel_id \<Rightarrow> msg_id \<Rightarrow> msg_id \<Rightarrow> id_map \<Rightarrow> twitch_id option \<Rightarrow> pool_world \<Rightarrow> pool_world" where
  "setCommunityPoolChannel g channelId hId fId cards spot w =
     (let old = configDocs w g;
          doc = \<lparr>pcfg_channelId = Some channelId,
                 pcfg_headerId = Some hId,
                 pcfg_footerId = Some fId,
                 pcfg_userMessageIds = Some (mergeMapField (Option.bind old pcfg_userMessageIds) cards),
                 spotlightTwitchId = spot,
                 spotlightClipId = Option.bind old spotlightClipId\<rparr>;
          store = (case messageStore w g of None \<Rightarrow> emptyPoolStore | Some s \<Rightarrow> s)
      in w\<lparr>configDocs := (configDocs w)(g \<mapsto> doc),
           messageStore := (messageStore w)(g \<mapsto>
             store\<lparr>pool_headerId := Some hId, pool_footerId := Some fId, userMessageIds := cards\<rparr>)\<rparr>)"

text \<open>One round of the loop "Users who went offline".\<close>

definition cleanupOfflinePoolUser ::
  "channel_id \<Rightarrow> twitch_id set \<Rightarrow> twitch_id \<Rightarrow> pool_store \<times> discord \<Rightarrow> pool_store \<times> discord" where
  "cleanupOfflinePoolUser c liveUserIds x sd =
     (case sd of (store, d) \<Rightarrow>
        if x \<in> liveUserIds then (store, d)
        else
          (store\<lparr>userMessageIds := AList.delete x (userMessageIds store)\<rparr>,
           (case map_of (userMessageIds store) x of
              None \<Rightarrow> d
            | Some messageId \<Rightarrow> deleteMessage c (CardSlot x) messageId d)))"

text \<open>One round of the loop "Users who are live (new or existing)".\<close>

definition updatePoolCard ::
  "channel_id \<Rightarrow> twitch_id option \<Rightarrow> twitch_id \<Rightarrow> pool_store \<times> discord
     \<Rightarrow> (pool_store \<times> discord) + (pool_store \<times> discord)" where
  "updatePoolCard c spot x sd =
     (case sd of (store, d) \<Rightarrow>
        let isSpotlight = (spot = Some x);
            messageId = map_of (userMessageIds store) x
        in if truthy messageId then
             (if fetchMessage c (the messageId) d
              then Inr (store, editMessage c (the messageId) (SpotlightEmbed x isSpotlight) d)
              else
                let store1 = store\<lparr>userMessageIds := AList.delete x (userMessageIds store)\<rparr>
                in (case send c (SpotlightEmbed x isSpotlight) d of
                      (None, d') \<Rightarrow> Inl (store1, d')
                    | (Some newId, d') \<Rightarrow>
                        Inr (store1\<lparr>userMessageIds := AList.update x newId (userMessageIds store1)\<rparr>, d')))
           else
             (case send c (SpotlightEmbed x isSpotlight) d of
                (None, d') \<Rightarrow> Inl (store, d')
              | (Some newId, d') \<Rightarrow>
                  Inr (store\<lparr>userMessageIds := AList.update x newId (userMessageIds store)\<rparr>, d')))"

fun updateLivePoolUsers ::
  "channel_id \<Rightarrow> twitch_id option \<Rightarrow> twitch_id list \<Rightarrow> pool_store \<times> discord
     \<Rightarrow> (pool_store \<times> discord) + (pool_store \<times> discord)" where
  "updateLivePoolUsers c spot [] sd = Inr sd"
| "updateLivePoolUsers c spot (x # rest) sd =
     (case updatePoolCard c spot x sd of
        Inl sd' \<Rightarrow> Inl sd'
      | Inr sd' \<Rightarrow> updateLivePoolUsers c spot rest sd')"

text \<open>"Update or repost footer to ensure it's last and updated".\<close>

definition refreshPoolFooter ::
  "channel_id \<Rightarrow> bool \<Rightarrow> nat \<Rightarrow> pool_store \<times> discord \<Rightarrow> (pool_store \<times> discord) + (pool_store \<times> discord)" where
  "refreshPoolFooter c isInitialCheck n sd =
     (case sd of (store, d) \<Rightarrow>
        if truthy (pool_footerId store) \<and> fetchMessage c (the (pool_footerId store)) d then
          (if lastMessage c d \<noteq> pool_footerId store then
             (case send c (FooterEmbed n) (deleteMessage c FooterSlot (the (pool_footerId store)) d) of
                (None, d') \<Rightarrow> Inl (store, d')
              | (Some newId, d') \<Rightarrow> Inr (store\<lparr>pool_footerId := Some newId\<rparr>, d'))
           else Inr (store, editMessage c (the (pool_footerId store)) (FooterEmbed n) d))
        else if \<not> isInitialCheck then
          (case send c (FooterEmbed n) d of
             (None, d') \<Rightarrow> Inl (store, d')
           | (Some newId, d') \<Rightarrow> Inr (store\<lparr>pool_footerId := Some newId\<rparr>, d'))
        else Inr (store, d))"

text \<open>
  "Spotlight \& Clip Logic": advance the rotation index when somebody is live and take the
  entity at the new index.
\<close>

definition nextSpotlight :: "nat \<Rightarrow> live_user list \<Rightarrow> nat \<times> live_user option" where
  "nextSpotlight idx liveUsers =
     (if length liveUsers > 0
      then ((idx + 1) mod length liveUsers, Some (liveUsers ! ((idx + 1) mod length liveUsers)))
      else (idx, None))"

text \<open>Delete the old spotlight clip message, then post the new one; a failed send is \<open>null\<close>.\<close>

definition replaceSpotlightClip ::
  "channel_id \<Rightarrow> msg_id option \<Rightarrow> (twitch_id \<Rightarrow> bool) \<Rightarrow> twitch_id option \<Rightarrow> discord \<Rightarrow> msg_id option \<times> discord" where
  "replaceSpotlightClip c oldClipMessageId clips highlighted d =
     (let d1 = (if truthy oldClipMessageId
                then deleteMessage c HighlightClipSlot (the oldClipMessageId) d else d)
      in (case highlighted of
            None \<Rightarrow> (None, d1)
          | Some x \<Rightarrow> if clips x then send c (ClipGifMessage x) d1 else (None, d1)))"

definition reconcilePool ::
  "channel_id \<Rightarrow> bool \<Rightarrow> live_user list \<Rightarrow> twitch_id option \<Rightarrow> pool_store \<times> discord
     \<Rightarrow> (pool_store \<times> discord) + (pool_store \<times> discord)" where
  "reconcilePool c isInitialCheck liveUsers spot sd =
     (let liveUserIds = map live_twitchId liveUsers;
          postedUserIds = map fst (userMessageIds (fst sd));
          sd1 = fold (cleanupOfflinePoolUser c (set liveUserIds)) postedUserIds sd
      in (case updateLivePoolUsers c spot liveUserIds sd1 of
            Inl sd2 \<Rightarrow> Inl sd2
          | Inr sd2 \<Rightarrow> refreshPoolFooter c isInitialCheck (length liveUsers) sd2))"

definition putPool :: "guild_id \<Rightarrow> pool_store \<times> discord \<Rightarrow> pool_world \<Rightarrow> pool_world" where
  "putPool g sd w = w\<lparr>messageStore := (messageStore w)(g \<mapsto> fst sd), discord := snd sd\<rparr>"

text \<open>The final \<open>set(..., { merge: true })\<close> of the pass.\<close>

definition persistPool ::
  "guild_id \<Rightarrow> pool_config \<Rightarrow> pool_store \<Rightarrow> twitch_id option \<Rightarrow> msg_id option \<Rightarrow> pool_world \<Rightarrow> pool_world" where
  "persistPool g config store spot newClipMessageId w =
     (let old = configDocs w g
      in w\<lparr>configDocs := (configDocs w)(g \<mapsto>
           \<lparr>pcfg_channelId = pcfg_channelId config,
            pcfg_headerId = orStored (pool_headerId store) (Option.bind old pcfg_headerId),
            pcfg_footerId = orStored (pool_footerId store) (Option.bind old pcfg_footerId),
            pcfg_userMessageIds =
              Some (mergeMapField (Option.bind old pcfg_userMessageIds) (userMessageIds store)),
            spotlightTwitchId = (if truthy spot then spot else None),
            spotlightClipId = newClipMessageId\<rparr>)\<rparr>)"

definition checkCommunityPool :: "guild_id \<Rightarrow> bool \<Rightarrow> feed \<Rightarrow> pool_world \<Rightarrow> outcome \<times> pool_world" where
  "checkCommunityPool g isInitialCheck fd w0 =
     (case loadCommunityPoolChannelConfig g w0 of
        (None, w) \<Rightarrow> (NotConfigured, w)
      | (Some config, w) \<Rightarrow>
          if \<not> truthy (pcfg_channelId config) then (NotConfigured, w)
          else
            let c = the (pcfg_channelId config) in
            if channels (discord w) c = None then (ChannelNotFound, w)
            else
              let w1 = (if isInitialCheck then w
                        else
                          (case configDocs w g of
                             None \<Rightarrow> w
                           | Some data \<Rightarrow>
                               w\<lparr>messageStore := (messageStore w)(g \<mapsto>
                                 (case messageStore w g of None \<Rightarrow> emptyPoolStore | Some s \<Rightarrow> s)
                                   \<lparr>pool_headerId := pcfg_headerId data,
                                    pool_footerId := pcfg_footerId data,
                                    userMessageIds := orEmpty (pcfg_userMessageIds data)\<rparr>)\<rparr>));
                  liveUsers = sortedLiveUsers (liveStreams fd) (getUsersFromDb fd)
              in (case messageStore w1 g of
                    None \<Rightarrow> (StoreMissing, w1)
                  | Some store \<Rightarrow>
                      let rotated = nextSpotlight (spotlightIndex w1) liveUsers;
                          spot = map_option live_twitchId (snd rotated);
                          w2 = w1\<lparr>spotlightIndex := fst rotated\<rparr>;
                          clip = replaceSpotlightClip c (spotlightClipId config) (clipFor fd) spot (discord w2)
                      in (case reconcilePool c isInitialCheck liveUsers spot (store, snd clip) of
                            Inl sd \<Rightarrow> (Aborted, putPool g sd w2)
                          | Inr sd \<Rightarrow>
                              (Completed, persistPool g config (fst sd) spot (fst clip) (putPool g sd w2)))))"

text \<open>
  \<open>runInitialCommunityPoolCheck\<close>; \<open>False\<close> is a call that rejects because the header or the
  footer could not be sent. It does not call \<open>startCommunityPoolTracking\<close>; its caller does.
\<close>

definition runInitialCommunityPoolCheck ::
  "guild_id \<Rightarrow> channel_id \<Rightarrow> feed \<Rightarrow> pool_world \<Rightarrow> bool \<times> pool_world" where
  "runInitialCommunityPoolCheck g channel fd w0 =
     (let w = (clearTracker g w0)\<lparr>spotlightIndex := 0\<rparr>;
          w' = w\<lparr>messageStore := (messageStore w)(g \<mapsto> emptyPoolStore)\<rparr>
      in (case send channel HeaderEmbed (discord w') of
            (None, d) \<Rightarrow> (False, w'\<lparr>discord := d\<rparr>)
          | (Some headerMsg, d) \<Rightarrow>
              let w2 = snd (checkCommunityPool g True fd (w'\<lparr>discord := d\<rparr>))
              in (case send channel (FooterEmbed (length (liveStreams fd))) (discord w2) of
                    (None, d') \<Rightarrow> (False, w2\<lparr>discord := d'\<rparr>)
                  | (Some footerMsg, d') \<Rightarrow>
                      (case messageStore w2 g of
                         None \<Rightarrow> (False, w2\<lparr>discord := d'\<rparr>)
                       | Some store \<Rightarrow>
                           (True,
                            setCommunityPoolChannel g channel headerMsg footerMsg
                              (userMessageIds store) None (w2\<lparr>discord := d'\<rparr>))))))"

definition startCommunityPoolTracking :: "guild_id \<Rightarrow> pool_world \<Rightarrow> pool_world" where
  "startCommunityPoolTracking g w =
     (if activeTrackers w g \<noteq> None then w else w\<lparr>timeouts := timeouts w @ [g]\<rparr>)"

section \<open>The Raid Pile tracker (src/bot/raid-pile-tracker.ts)\<close>

record pile_store =
  pile_headerId :: "msg_id option"
  holderId :: "msg_id option"
  clipId :: "msg_id option"
  leaderboardId :: "msg_id option"
  queueId :: "msg_id option"
  pile_footerId :: "msg_id option"

record pile_config =
  rcfg_channelId :: "channel_id option"
  rcfg_headerId :: "msg_id option"
  rcfg_holderId :: "msg_id option"
  rcfg_clipId :: "msg_id option"
  rcfg_leaderboardId :: "msg_id option"
  rcfg_queueId :: "msg_id option"
  rcfg_footerId :: "msg_id option"

type_synonym pile_world = "(pile_store, pile_config) tracker_world"

definition emptyPileStore :: pile_store where
  "emptyPileStore =
     \<lparr>pile_headerId = None, holderId = None, clipId = None, leaderboardId = None,
      queueId = None, pile_footerId = None\<rparr>"

definition loadRaidPileChannelConfig :: "guild_id \<Rightarrow> pile_world \<Rightarrow> pile_config option \<times> pile_world" where
  "loadRaidPileChannelConfig g w =
     (case configDocs w g of
        None \<Rightarrow> (None, w)
      | Some data \<Rightarrow>
          (Some data,
           w\<lparr>messageStore := (messageStore w)(g \<mapsto>
                \<lparr>pile_headerId = rcfg_headerId data, holderId = rcfg_holderId data,
                 clipId = rcfg_clipId data, leaderboardId = rcfg_leaderboardId data,
                 queueId = rcfg_queueId data, pile_footerId = rcfg_footerId data\<rparr>)\<rparr>))"

text \<open>\<open>set({ channelId, ...messageIds })\<close> without merge: the document is replaced.\<close>

definition setRaidPileChannel :: "guild_id \<Rightarrow> channel_id \<Rightarrow> pile_store \<Rightarrow> pile_world \<Rightarrow> pile_world" where
  "setRaidPileChannel g channelId messageIds w =
     w\<lparr>configDocs := (configDocs w)(g \<mapsto>
          \<lparr>rcfg_channelId = Some channelId, rcfg_headerId = pile_headerId messageIds,
           rcfg_holderId = holderId messageIds, rcfg_clipId = clipId messageIds,
           rcfg_leaderboardId = leaderboardId messageIds, rcfg_queueId = queueId messageIds,
           rcfg_footerId = pile_footerId messageIds\<rparr>),
       messageStore := (messageStore w)(g \<mapsto> messageIds)\<rparr>"

text \<open>\<open>id ? await channel.messages.fetch(id).catch(() => null) : null\<close>, then edit if found.\<close>

definition editIfFound :: "channel_id \<Rightarrow> msg_id option \<Rightarrow> payload \<Rightarrow> discord \<Rightarrow> discord" where
  "editIfFound c mid p d =
     (if truthy mid \<and> fetchMessage c (the mid) d then editMessage c (the mid) p d else d)"

definition checkRaidPile :: "guild_id \<Rightarrow> feed \<Rightarrow> pile_world \<Rightarrow> outcome \<times> pile_world" where
  "checkRaidPile g fd w0 =
     (case loadRaidPileChannelConfig g w0 of
        (None, w) \<Rightarrow> (NotConfigured, w)
      | (Some config, w) \<Rightarrow>
          if \<not> truthy (rcfg_channelId config) then (NotConfigured, w)
          else
            let c = the (rcfg_channelId config) in
            if channels (discord w) c = None then (ChannelNotFound, w)
            else
              let liveUsers = sortedLiveUsers (liveStreams fd) (getUsersFromDb fd);
                  holder = (case liveUsers of [] \<Rightarrow> None | u # _ \<Rightarrow> Some (live_twitchId u));
                  queue = map live_twitchId (tl liveUsers)
              in (case messageStore w g of
                    None \<Rightarrow> (StoreMissing, w)
                  | Some store \<Rightarrow>
                      let clip = replaceSpotlightClip c (clipId store) (clipFor fd) holder (discord w);
                          store1 = store\<lparr>clipId := fst clip\<rparr>;
                          d1 = editIfFound c (holderId store1) (HolderEmbed holder) (snd clip);
                          d2 = editIfFound c (leaderboardId store1) LeaderboardMessage d1;
                          d3 = editIfFound c (queueId store1) (QueueEmbed queue) d2;
                          d4 = editIfFound c (pile_footerId store1) (FooterEmbed (length liveUsers)) d3;
                          w1 = w\<lparr>messageStore := (messageStore w)(g \<mapsto> store1), discord := d4\<rparr>
                      in if truthy (pile_headerId store1) \<and> truthy (holderId store1)
                            \<and> truthy (leaderboardId store1) \<and> truthy (queueId store1)
                            \<and> truthy (pile_footerId store1)
                         then (Completed, setRaidPileChannel g c store1 w1)
                         else (Completed, w1)))"

text \<open>\<open>startRaidPileTracking\<close> registers the interval at once.\<close>

definition startRaidPileTracking :: "guild_id \<Rightarrow> pile_world \<Rightarrow> pile_world" where
  "startRaidPileTracking g w = (if activeTrackers w g \<noteq> None then w else registerInterval g w)"

text \<open>Sends in a row, as \<open>await channel.send(...)\<close> statements: the first rejection ends them.\<close>

fun sendAll :: "channel_id \<Rightarrow> payload list \<Rightarrow> discord \<Rightarrow> msg_id list option \<times> discord" where
  "sendAll c [] d = (Some [], d)"
| "sendAll c (p # ps) d =
     (case send c p d of
        (None, d') \<Rightarrow> (None, d')
      | (Some m, d') \<Rightarrow>
          (case sendAll c ps d' of
             (None, d'') \<Rightarrow> (None, d'')
           | (Some ms, d'') \<Rightarrow> (Some (m # ms), d'')))"

text \<open>
  \<open>runInitialRaidPileCheck\<close>; \<open>False\<close> is a call that rejects because one of the five slot
  messages could not be sent.
\<close>

definition runInitialRaidPileCheck :: "guild_id \<Rightarrow> channel_id \<Rightarrow> feed \<Rightarrow> pile_world \<Rightarrow> bool \<times> pile_world" where
  "runInitialRaidPileCheck g channel fd w0 =
     (let w = (clearTracker g w0)\<lparr>messageStore := (messageStore (clearTracker g w0))(g \<mapsto> emptyPileStore)\<rparr>;
          liveUsers = sortedLiveUsers (liveStreams fd) (getUsersFromDb fd);
          holder = (case liveUsers of [] \<Rightarrow> None | u # _ \<Rightarrow> Some (live_twitchId u));
          queue = map live_twitchId (tl liveUsers);
          clip = replaceSpotlightClip channel None (clipFor fd) holder (discord w)
      in (case sendAll channel
                 [HeaderEmbed, HolderEmbed holder, LeaderboardMessage, QueueEmbed queue,
                  FooterEmbed (length liveUsers)] (snd clip) of
            (Some [headerMsg, holderMsg, leaderboardMsg, queueMsg, footerMsg], d) \<Rightarrow>
              (True,
               startRaidPileTracking g
                 (setRaidPileChannel g channel
                    \<lparr>pile_headerId = Some headerMsg, holderId = Some holderMsg, clipId = fst clip,
                     leaderboardId = Some leaderboardMsg, queueId = Some queueMsg,
                     pile_footerId = Some footerMsg\<rparr>
                    (w\<lparr>discord := d\<rparr>)))
          | (_, d) \<Rightarrow> (False, w\<lparr>discord := d\<rparr>)))"

text \<open>\<open>stopRaidPileTracking\<close>, with the value it resolves to.\<close>

definition stopRaidPileTracking :: "guild_id \<Rightarrow> pile_world \<Rightarrow> bool \<times> pile_world" where
  "stopRaidPileTracking g w0 =
     (let w = clearTracker g w0
      in (case configDocs w g of
            None \<Rightarrow> (False, w)
          | Some config \<Rightarrow>
              if \<not> truthy (rcfg_channelId config) then (False, w)
              else
                let c = the (rcfg_channelId config);
                    messageIdsToDelete =
                      filterBoolean [rcfg_headerId config, rcfg_holderId config, rcfg_clipId config,
                                     rcfg_leaderboardId config, rcfg_queueId config, rcfg_footerId config];
                    d = (if channels (discord w) c = None then discord w
                         else if length messageIdsToDelete > 1 then
                           (case bulkDelete c messageIdsToDelete (discord w) of
                              (True, d') \<Rightarrow> d'
                            | (False, d') \<Rightarrow> fold (deleteMessage c ConfigSlot) messageIdsToDelete d')
                         else if length messageIdsToDelete = 1 then
                           deleteMessage c ConfigSlot (hd messageIdsToDelete) (discord w)
                         else discord w)
                in (True, w\<lparr>discord := d,
                            configDocs := (configDocs w)(g := None),
                            messageStore := (messageStore w)(g := None)\<rparr>)))"

text \<open>
  What can happen to the Raid Pile module: a call of one of its three exported functions,
  or a tick of a live interval, which runs \<open>checkRaidPile\<close> for the guild the interval was
  registered for.
\<close>

datatype pile_call =
    StartCall guild_id
  | BootstrapCall guild_id channel_id feed
  | StopCall guild_id
  | IntervalTick nat feed

fun pileCall :: "pile_call \<Rightarrow> pile_world \<Rightarrow> pile_world" where
  "pileCall (StartCall g) w = startRaidPileTracking g w"
| "pileCall (BootstrapCall g c fd) w = snd (runInitialRaidPileCheck g c fd w)"
| "pileCall (StopCall g) w = snd (stopRaidPileTracking g w)"
| "pileCall (IntervalTick h fd) w =
     (case map_of (intervals w) h of
        None \<Rightarrow> w
      | Some g \<Rightarrow> snd (checkRaidPile g fd w))"

text \<open>
  Every live interval is the one recorded for its guild in \<open>activeTrackers\<close>, and handles
  are not reused.
\<close>

definition timersRecorded :: "('s, 'c, 'z) tracker_world_scheme \<Rightarrow> bool" where
  "timersRecorded w =
     (distinct (map fst (intervals w)) \<and>
      list_all (\<lambda>hg. fst hg < nextHandle w \<and> activeTrackers w (snd hg) = Some (fst hg))
        (intervals w))"

section \<open>Reading the record of requests\<close>

text \<open>
  The entity a card payload is for, and the card requests in a list of events: cards
  created, cards edited (with the message edited) and card messages deleted.
\<close>

fun cardOf :: "payload \<Rightarrow> twitch_id option" where
  "cardOf (VipEmbed x) = Some x"
| "cardOf (SpotlightEmbed x b) = Some x"
| "cardOf p = None"

fun createdCard :: "event \<Rightarrow> twitch_id option" where
  "createdCard (Sent c p m) = cardOf p"
| "createdCard e = None"

fun editedCard :: "event \<Rightarrow> (twitch_id \<times> msg_id) option" where
  "editedCard (Edited c m p) = map_option (\<lambda>x. (x, m)) (cardOf p)"
| "editedCard e = None"

fun deletedCard :: "event \<Rightarrow> (twitch_id \<times> msg_id) option" where
  "deletedCard (DeleteRequested c (CardSlot x) m) = Some (x, m)"
| "deletedCard e = None"

definition cardsCreated :: "event list \<Rightarrow> twitch_id list" where
  "cardsCreated evs = List.map_filter createdCard evs"

definition cardsEdited :: "event list \<Rightarrow> (twitch_id \<times> msg_id) list" where
  "cardsEdited evs = List.map_filter editedCard evs"

definition cardsDeleted :: "event list \<Rightarrow> (twitch_id \<times> msg_id) list" where
  "cardsDeleted evs = List.map_filter deletedCard evs"

text \<open>The requests made between two states of the messaging surface.\<close>

definition newEvents :: "discord \<Rightarrow> discord \<Rightarrow> event list" where
  "newEvents d d' = drop (length (events d)) (events d')"

text \<open>The record of \<open>d'\<close> continues the record of \<open>d\<close>: the requests of \<open>d\<close>, then more.\<close>

definition continues :: "discord \<Rightarrow> discord \<Rightarrow> bool" where
  "continues d d' = (\<exists>E. events d' = events d @ E)"

text \<open>
  The ids that a list of requests asks to delete from a channel, and the relation between
  two states of the surface with the requests \<open>E\<close> in between: the record has grown by \<open>E\<close>,
  and a message that could be fetched before can still be fetched unless \<open>E\<close> asked to
  delete it.
\<close>

definition deletedIds :: "channel_id \<Rightarrow> event list \<Rightarrow> msg_id set" where
  "deletedIds c E =
     {m. \<exists>sl. DeleteRequested c sl m \<in> set E} \<union>
     {m. \<exists>ids. BulkDeleteRequested c ids \<in> set E \<and> m \<in> set ids}"

definition steps :: "channel_id \<Rightarrow> discord \<Rightarrow> event list \<Rightarrow> discord \<Rightarrow> bool" where
  "steps c d E d' =
     (events d' = events d @ E \<and>
      (\<forall>m. fetchMessage c m d \<and> m \<notin> deletedIds c E \<longrightarrow> fetchMessage c m d'))"

text \<open>
  A posted-id map whose messages are there: one entry per entity, and the message ids are
  non-empty, pairwise different and all fetchable in the channel.
\<close>

definition cardsPosted :: "channel_id \<Rightarrow> id_map \<Rightarrow> discord \<Rightarrow> bool" where
  "cardsPosted c P d =
     (distinct (map fst P) \<and> distinct (map snd P) \<and>
      (\<forall>m \<in> set (map snd P). m \<noteq> [] \<and> fetchMessage c m d))"

text \<open>Sample data: a clip waiting for conversion, and a run in which every step succeeds.\<close>

definition pendingClip :: clip_doc where
  "pendingClip =
     \<lparr>videoUrl = Some ''https://clips.example/a.mp4'', gifUrl = None, gifStoragePath = None,
      processingStatus = Some Pending, storageDestination = None, errorMessage = None,
      durationSeconds = None, processingStartedAt = None, errorAt = None, processedAt = None\<rparr>"

definition quietEnv :: pipeline_env where
  "quietEnv =
     \<lparr>transactionThrows = None, mkdtempThrows = None, download = Downloaded,
      probeThrows = None, probedDuration = Some 12, transcodeThrows = None,
      uploadThrows = None, gifStorageFolder = None,
      publicUrl = ''https://storage.example/a.gif'',
      finalizeRejected = None, errorUpdateRejected = False, serverTime = 7\<rparr>"

definition oneClipWorld :: clip_world where
  "oneClipWorld = \<lparr>clipDocs = [''clips/a'' \<mapsto> pendingClip], processingDocs = {}\<rparr>"

text \<open>
  A run in which the download is answered with status 404, and the document as that run
  leaves it.
\<close>

definition notFoundEnv :: pipeline_env where
  "notFoundEnv = quietEnv\<lparr>download := HttpNotOk ''404'' ''Not Found''\<rparr>"

definition failedClip :: clip_doc where
  "failedClip =
     pendingClip\<lparr>processingStatus := Some Failed,
                  errorMessage := Some ''Failed to download clip: 404 Not Found'',
                  processingStartedAt := Some 7, errorAt := Some 7\<rparr>"

text \<open>
  Clip requests: a clip message sent, and a delete request for a stored clip message. In a
  list of requests the clip deletes come first when no clip delete follows a clip send.
\<close>

fun isClipSend :: "event \<Rightarrow> bool" where
  "isClipSend (Sent c (ClipGifMessage x) m) = True"
| "isClipSend e = False"

fun isClipDelete :: "event \<Rightarrow> bool" where
  "isClipDelete (DeleteRequested c (ClipSlot x) m) = True"
| "isClipDelete (DeleteRequested c HighlightClipSlot m) = True"
| "isClipDelete e = False"

definition clipDeletesFirst :: "event list \<Rightarrow> bool" where
  "clipDeletesFirst E = list_all (\<lambda>e. \<not> isClipDelete e) (dropWhile (\<lambda>e. \<not> isClipSend e) E)"

text \<open>Two states of the surface with no clip request in between.\<close>

definition noClipRequests :: "discord \<Rightarrow> discord \<Rightarrow> bool" where
  "noClipRequests d d' =
     (\<exists>E. events d' = events d @ E \<and> list_all (\<lambda>e. \<not> isClipSend e \<and> \<not> isClipDelete e) E)"


text \<open>
  The store as \<open>loadVipChannelConfig\<close> fills it from a configuration, and the delete
  requests the clean-up loop makes for the keys \<open>ks\<close> when none of them is live: the card
  message of each key, followed by its clip message when one is stored.
\<close>

definition loadedVipStore :: "vip_config \<Rightarrow> vip_store" where
  "loadedVipStore config =
     \<lparr>headerId = cfg_headerId config, footerId = cfg_footerId config,
      vipMessageIds = orEmpty (cfg_vipMessageIds config),
      vipClipMessageIds = orEmpty (cfg_vipClipMessageIds config)\<rparr>"

definition offlineRequests :: "twitch_id list \<Rightarrow> vip_store \<Rightarrow> (slot \<times> msg_id) list" where
  "offlineRequests ks store =
     concat (map (\<lambda>x. (case map_of (vipMessageIds store) x of
                          None \<Rightarrow> []
                        | Some m \<Rightarrow> [(CardSlot x, m)])
                     @ (case map_of (vipClipMessageIds store) x of
                          None \<Rightarrow> []
                        | Some k \<Rightarrow> if k = [] then [] else [(ClipSlot x, k)])) ks)"

definition deleteRequests :: "channel_id \<Rightarrow> (slot \<times> msg_id) list \<Rightarrow> event list" where
  "deleteRequests c reqs = map (\<lambda>(sl, m). DeleteRequested c sl m) reqs"

text \<open>
  Sample data for the trackers: a channel with a header, two cards, a clip and a footer,
  and a second channel with a header and a footer; a roster of three of whom \<open>b\<close> and \<open>c\<close>
  are live; \<open>a\<close> and \<open>b\<close> have cards. In the sample worlds guild \<open>g1\<close> is set up on the
  first channel with a running interval, and in the Community Pool world guild \<open>g2\<close> is set
  up on the second channel.
\<close>

definition sampleFeed :: feed where
  "sampleFeed =
     \<lparr>rosterIds = [''a'', ''b'', ''c''],
      liveStreams = [\<lparr>user_id = ''c'', stream_started_at = 20\<rparr>,
                     \<lparr>user_id = ''b'', stream_started_at = 10\<rparr>],
      dbUsers = [\<lparr>twitchId = ''a'', displayName = ''A''\<rparr>,
                 \<lparr>twitchId = ''c'', displayName = ''C''\<rparr>,
                 \<lparr>twitchId = ''b'', displayName = ''B''\<rparr>],
      clipFor = (\<lambda>x. x = ''b'')\<rparr>"

definition sampleDiscord :: discord where
  "sampleDiscord =
     \<lparr>channels = [''ch'' \<mapsto> [''h'', ''m1'', ''m2'', ''k0'', ''f''], ''ch2'' \<mapsto> [''h2'', ''f2'']],
      replies = [Some ''n1'', Some ''n2'', Some ''n3'', Some ''n4'', Some ''n5'', Some ''n6''],
      bulkDeleteWorks = True,
      events = []\<rparr>"

definition sampleVipStore :: vip_store where
  "sampleVipStore =
     \<lparr>headerId = Some ''h'', footerId = Some ''f'',
      vipMessageIds = [(''a'', ''m1''), (''b'', ''m2'')],
      vipClipMessageIds = [(''b'', ''k0'')]\<rparr>"

definition samplePoolStore :: pool_store where
  "samplePoolStore =
     \<lparr>pool_headerId = Some ''h'', pool_footerId = Some ''f'',
      userMessageIds = [(''a'', ''m1''), (''b'', ''m2'')]\<rparr>"

text \<open>
  A feed in which nobody is live, a feed for a roster without ids, and a world in which
  somebody else has posted a message (\<open>u1\<close>) after the footer of guild \<open>g1\<close>.
\<close>

definition offAirFeed :: feed where
  "offAirFeed =
     \<lparr>rosterIds = [''a''], liveStreams = [],
      dbUsers = [\<lparr>twitchId = ''a'', displayName = ''A''\<rparr>],
      clipFor = (\<lambda>x. False)\<rparr>"

definition noRosterFeed :: feed where
  "noRosterFeed = \<lparr>rosterIds = [], liveStreams = [], dbUsers = [], clipFor = (\<lambda>x. False)\<rparr>"

definition crowdedVipWorld :: vip_world where
  "crowdedVipWorld =
     \<lparr>activeTrackers = [''g1'' \<mapsto> 0],
      messageStore = Map.empty,
      configDocs = [''g1'' \<mapsto>
        \<lparr>cfg_channelId = Some ''ch'', cfg_headerId = Some ''h'', cfg_footerId = Some ''f'',
         cfg_vipMessageIds = Some [(''a'', ''m1'')],
         cfg_vipClipMessageIds = Some []\<rparr>],
      discord =
        \<lparr>channels = [''ch'' \<mapsto> [''h'', ''m1'', ''f'', ''u1'']],
         replies = [Some ''n1'', Some ''n2''],
         bulkDeleteWorks = True,
         events = []\<rparr>,
      intervals = [(0, ''g1'')],
      timeouts = [],
      nextHandle = 1\<rparr>"

definition sampleVipWorld :: vip_world where
  "sampleVipWorld =
     \<lparr>activeTrackers = [''g1'' \<mapsto> 0],
      messageStore = Map.empty,
      configDocs = [''g1'' \<mapsto>
        \<lparr>cfg_channelId = Some ''ch'', cfg_headerId = Some ''h'', cfg_footerId = Some ''f'',
         cfg_vipMessageIds = Some [(''a'', ''m1''), (''b'', ''m2'')],
         cfg_vipClipMessageIds = Some [(''b'', ''k0'')]\<rparr>],
      discord = sampleDiscord,
      intervals = [(0, ''g1'')],
      timeouts = [],
      nextHandle = 1\<rparr>"

definition samplePoolWorld :: pool_world where
  "samplePoolWorld =
     \<lparr>activeTrackers = [''g1'' \<mapsto> 0],
      messageStore = Map.empty,
      configDocs = [''g1'' \<mapsto>
        \<lparr>pcfg_channelId = Some ''ch'', pcfg_headerId = Some ''h'', pcfg_footerId = Some ''f'',
         pcfg_userMessageIds = Some [(''a'', ''m1''), (''b'', ''m2'')],
         spotlightTwitchId = Some ''a'', spotlightClipId = Some ''k0''\<rparr>,
        ''g2'' \<mapsto>
        \<lparr>pcfg_channelId = Some ''ch2'', pcfg_headerId = Some ''h2'', pcfg_footerId = Some ''f2'',
         pcfg_userMessageIds = Some [],
         spotlightTwitchId = None, spotlightClipId = None\<rparr>],
      discord = sampleDiscord,
      intervals = [(0, ''g1'')],
      timeouts = [],
      nextHandle = 1,
      spotlightIndex = 0\<rparr>"

definition samplePileWorld :: pile_world where
  "samplePileWorld =
     \<lparr>activeTrackers = [''g1'' \<mapsto> 0],
      messageStore = Map.empty,
      configDocs = [''g1'' \<mapsto>
        \<lparr>rcfg_channelId = Some ''ch'', rcfg_headerId = Some ''h'', rcfg_holderId = Some ''m1'',
         rcfg_clipId = Some ''k0'', rcfg_leaderboardId = Some ''m2'', rcfg_queueId = Some ''q'',
         rcfg_footerId = Some ''f''\<rparr>],
      discord = sampleDiscord,
      intervals = [(0, ''g1'')],
      timeouts = [],
      nextHandle = 1\<rparr>"

text \<open>The first sample world after its channel has become unreachable.\<close>

definition strandedVipWorld :: vip_world where
  "strandedVipWorld = sampleVipWorld\<lparr>discord := sampleDiscord\<lparr>channels := Map.empty\<rparr>\<rparr>"

text \<open>A world in which nothing is set up and no timer runs.\<close>

definition idleVipWorld :: vip_world where
  "idleVipWorld =
     \<lparr>activeTrackers = Map.empty, messageStore = Map.empty, configDocs = Map.empty,
      discord = sampleDiscord, intervals = [], timeouts = [], nextHandle = 0\<rparr>"

definition idlePileWorld :: pile_world where
  "idlePileWorld =
     \<lparr>activeTrackers = Map.empty, messageStore = Map.empty, configDocs = Map.empty,
      discord = sampleDiscord, intervals = [], timeouts = [], nextHandle = 0\<rparr>"

section \<open>Properties of the clip pipeline\<close>

text \<open>
  C4. The claim step returns \<open>null\<close> and leaves the store as it was exactly when the
  document is absent, has no source video URL, already has an output URL, or has status
  \<open>processing\<close> or \<open>complete\<close>. In every other case it stores status \<open>processing\<close>, changes
  no other document and returns the data it read; a second claim on the resulting store
  returns \<open>null\<close> and writes nothing, so of two claims in a row at most one succeeds.
\<close>

theorem markProcessing_claim:
  "((fst (markProcessing now r db) = None) =
      (db r = None \<or> (\<exists>d. db r = Some d \<and>
         (\<not> truthy (videoUrl d) \<or> truthy (gifUrl d)
          \<or> processingStatus d = Some Processing \<or> processingStatus d = Some Complete)))) \<and>
   (fst (markProcessing now r db) = None \<longrightarrow> snd (markProcessing now r db) = db) \<and>
   (fst (markProcessing now r db) \<noteq> None \<longrightarrow>
      fst (markProcessing now r db) = db r \<and>
      (\<exists>d'. snd (markProcessing now r db) r = Some d' \<and> processingStatus d' = Some Processing) \<and>
      (\<forall>k. k \<noteq> r \<longrightarrow> snd (markProcessing now r db) k = db k) \<and>
      markProcessing now' r (snd (markProcessing now r db)) = (None, snd (markProcessing now r db)))"
  by (auto simp: markProcessing_def split: option.splits if_splits)


theorem markProcessing_claim_witness:
  "fst (markProcessing 5 ''clips/a'' [''clips/a'' \<mapsto> pendingClip]) = Some pendingClip \<and>
   markProcessing 9 ''clips/a'' (snd (markProcessing 5 ''clips/a'' [''clips/a'' \<mapsto> pendingClip]))
     = (None, snd (markProcessing 5 ''clips/a'' [''clips/a'' \<mapsto> pendingClip])) \<and>
   fst (markProcessing 5 ''clips/a'' Map.empty) = None \<and>
   snd (markProcessing 5 ''clips/a'' Map.empty) = Map.empty"
  using markProcessing_claim [of 5 "''clips/a''" "[''clips/a'' \<mapsto> pendingClip]" 9]
    markProcessing_claim [of 5 "''clips/a''" Map.empty 9]
  by (simp add: markProcessing_def pendingClip_def)

lemma markProcessing_Some:
  assumes "fst (markProcessing now r db) = Some d"
  shows "db r = Some d" "truthy (videoUrl d)" "\<not> truthy (gifUrl d)"
    "snd (markProcessing now r db) = db(r \<mapsto> d\<lparr>processingStatus := Some Processing,
                                                 processingStartedAt := Some now\<rparr>)"
  using assms by (auto simp: markProcessing_def split: option.splits if_splits)

lemma convertAndFinalize_failure:
  assumes "mkdtempThrows env = None" "db r = Some d0"
  shows "conversionFailure env = Some e \<Longrightarrow> convertAndFinalize env g r d db = Inl e"
    and "conversionFailure env = None \<Longrightarrow> \<exists>db'. convertAndFinalize env g r d db = Inr db'"
  using assms
  by (auto simp: conversionFailure_def convertAndFinalize_def finalizeDoc_def
           split: sum.splits option.splits)

text \<open>
  C5, as the code has it. Take a document that the run claims, and let a step of the
  conversion (scratch directory, download, probe, transcode, upload or the completion
  update) fail with the value \<open>e\<close>. The output URL stays unset. When the error update is
  written, the run ends with status \<open>error\<close> and the error message is the message of \<open>e\<close>,
  whatever it is; for a download answered with a status that is not ok the message is the
  one \<open>downloadMp4\<close> builds, which is not empty. When the error update is itself rejected
  the document keeps status \<open>processing\<close>.
\<close>

theorem processClipDoc_failure:
  assumes guard: "r \<notin> processingDocs w" "\<not> truthy (gifUrl snap)"
      "processingStatus snap \<noteq> Some Complete"
    and tx: "transactionThrows env = None"
    and claimed: "fst (markProcessing (serverTime env) r (clipDocs w)) = Some d"
    and fails: "conversionFailure env = Some e"
  shows "\<exists>d'. clipDocs (snd (processClipDoc env g r snap w)) r = Some d' \<and>
           gifUrl d' = gifUrl d \<and> \<not> truthy (gifUrl d') \<and>
           (if errorUpdateRejected env
            then fst (processClipDoc env g r snap w) = Rejected \<and>
                 processingStatus d' = Some Processing
            else fst (processClipDoc env g r snap w) = MarkedFailed \<and>
                 processingStatus d' = Some Failed \<and>
                 errorMessage d' = Some (message_of e)) \<and>
           (\<forall>s t. mkdtempThrows env = None \<and> download env = HttpNotOk s t \<longrightarrow>
              message_of e \<noteq> [])"
proof -
  define db1 where "db1 = snd (markProcessing (serverTime env) r (clipDocs w))"
  let ?d1 = "d\<lparr>processingStatus := Some Processing, processingStartedAt := Some (serverTime env)\<rparr>"
  note m = markProcessing_Some [OF claimed]
  have mp: "markProcessing (serverTime env) r (clipDocs w) = (Some d, db1)"
    using claimed unfolding db1_def
    by (cases "markProcessing (serverTime env) r (clipDocs w)") simp
  have db_r: "db1 r = Some ?d1" using m(4) by (simp add: db1_def)
  have attempt: "(case mkdtempThrows env of
                    Some e \<Rightarrow> (Inl e, db1)
                  | None \<Rightarrow> (case convertAndFinalize env g r d db1 of
                               Inl e \<Rightarrow> (Inl e, db1)
                             | Inr db' \<Rightarrow> (Inr Converted, db'))) = (Inl e, db1)"
  proof (cases "mkdtempThrows env")
    case None
    then show ?thesis
      using convertAndFinalize_failure(1) [where env = env and db = db1 and r = r and e = e
          and g = g and d = d] db_r fails
      by simp
  next
    case (Some e')
    then show ?thesis using fails by (simp add: conversionFailure_def)
  qed
  have msg: "\<forall>s t. mkdtempThrows env = None \<and> download env = HttpNotOk s t \<longrightarrow> message_of e \<noteq> []"
    using fails by (auto simp: conversionFailure_def)
  show ?thesis
    using guard tx m(2,3) msg
    by (simp add: processClipDoc_def updateDocWithError_def Let_def mp attempt db_r)
qed

theorem processClipDoc_failure_witness:
  "clipDocs (snd (processClipDoc (quietEnv\<lparr>download := HttpNotOk ''404'' ''Not Found''\<rparr>)
       ''g1'' ''clips/a'' pendingClip oneClipWorld)) ''clips/a''
     = Some (pendingClip\<lparr>processingStatus := Some Failed,
          errorMessage := Some ''Failed to download clip: 404 Not Found'',
          processingStartedAt := Some 7, errorAt := Some 7\<rparr>) \<and>
   fst (processClipDoc (quietEnv\<lparr>download := HttpNotOk ''404'' ''Not Found''\<rparr>)
       ''g1'' ''clips/a'' pendingClip oneClipWorld) = MarkedFailed"
  using processClipDoc_failure [of "''clips/a''" oneClipWorld pendingClip
      "quietEnv\<lparr>download := HttpNotOk ''404'' ''Not Found''\<rparr>" pendingClip
      "ErrorObject ''Failed to download clip: 404 Not Found''" "''g1''"]
  by (simp add: processClipDoc_def updateDocWithError_def markProcessing_def
        convertAndFinalize_def conversionFailure_def oneClipWorld_def pendingClip_def
        quietEnv_def Let_def)

text \<open>
  The claim as written fails in three ways. An upload that throws an error whose message is
  empty leaves an empty error message. When the error update is rejected as well, the
  document is left with status \<open>processing\<close>, not \<open>error\<close>. And status \<open>error\<close> does not
  keep a document out of the pipeline: the error update is a write to the collection, the
  listener gets it as a modification, and \<open>processClipDoc\<close> and \<open>markProcessing\<close> let a
  document with status \<open>error\<close> through, so the document is claimed and converted again
  with no reset from outside.
\<close>

theorem processClipDoc_failure_counterexample:
  "(\<exists>d'. clipDocs (snd (processClipDoc (quietEnv\<lparr>uploadThrows := Some (ErrorObject [])\<rparr>)
            ''g1'' ''clips/a'' pendingClip oneClipWorld)) ''clips/a'' = Some d' \<and>
         processingStatus d' = Some Failed \<and> errorMessage d' = Some []) \<and>
   (\<exists>d'. clipDocs (snd (processClipDoc
            (quietEnv\<lparr>finalizeRejected := Some (ErrorObject ''UNAVAILABLE''),
                      errorUpdateRejected := True\<rparr>)
            ''g1'' ''clips/a'' pendingClip oneClipWorld)) ''clips/a'' = Some d' \<and>
         processingStatus d' = Some Processing) \<and>
   snd (processClipDoc notFoundEnv ''g1'' ''clips/a'' pendingClip oneClipWorld)
     = \<lparr>clipDocs = [''clips/a'' \<mapsto> failedClip], processingDocs = {}\<rparr> \<and>
   fst (markProcessing 8 ''clips/a'' [''clips/a'' \<mapsto> failedClip]) = Some failedClip \<and>
   fst (snapshotChange quietEnv ''g1'' ChangeModified ''clips/a'' failedClip
          \<lparr>clipDocs = [''clips/a'' \<mapsto> failedClip], processingDocs = {}\<rparr>) = Converted \<and>
   map_option processingStatus
     (clipDocs (snd (snapshotChange quietEnv ''g1'' ChangeModified ''clips/a'' failedClip
          \<lparr>clipDocs = [''clips/a'' \<mapsto> failedClip], processingDocs = {}\<rparr>)) ''clips/a'')
     = Some (Some Complete)"
  by (simp add: processClipDoc_def updateDocWithError_def markProcessing_def
        convertAndFinalize_def convertMp4ToGif_def finalizeDoc_def oneClipWorld_def
        pendingClip_def quietEnv_def notFoundEnv_def failedClip_def snapshotChange_def Let_def)

section \<open>Properties of the live order\<close>

text \<open>
  C3, as the code has it. The live list of the Raid Pile and Community Pool passes is in
  ascending order of stream start, it holds the same entities as the unsorted list, and
  entities with the same start keep the order they had in the list of user documents:
  the sort compares start times only and is stable.
\<close>

theorem sortedLiveUsers_order:
  "sorted (map started_at (sortedLiveUsers ss us)) \<and>
   mset (sortedLiveUsers ss us) = mset (mergeLive ss us) \<and>
   (\<forall>t. filter (\<lambda>u. started_at u = t) (sortedLiveUsers ss us)
         = filter (\<lambda>u. started_at u = t) (mergeLive ss us))"
  by (simp add: sortedLiveUsers_def sortByStart_def sort_key_stable)

text \<open>
  Two entities that started at the same time come out in the order they went in, so the
  order is not a function of the set of entities, and no order on entity ids decides it.
\<close>

theorem sortedLiveUsers_counterexample:
  "sortByStart [\<lparr>live_twitchId = ''b'', live_displayName = ''B'', started_at = 5\<rparr>,
                \<lparr>live_twitchId = ''a'', live_displayName = ''A'', started_at = 5\<rparr>]
     = [\<lparr>live_twitchId = ''b'', live_displayName = ''B'', started_at = 5\<rparr>,
        \<lparr>live_twitchId = ''a'', live_displayName = ''A'', started_at = 5\<rparr>] \<and>
   sortByStart [\<lparr>live_twitchId = ''a'', live_displayName = ''A'', started_at = 5\<rparr>,
                \<lparr>live_twitchId = ''b'', live_displayName = ''B'', started_at = 5\<rparr>]
     = [\<lparr>live_twitchId = ''a'', live_displayName = ''A'', started_at = 5\<rparr>,
        \<lparr>live_twitchId = ''b'', live_displayName = ''B'', started_at = 5\<rparr>]"
  by (simp add: sortByStart_def)

section \<open>Properties of the card reconciliation\<close>

lemma map_filter_append: "List.map_filter f (xs @ ys) = List.map_filter f xs @ List.map_filter f ys"
  by (simp add: List.map_filter_def)

lemma cards_append [simp]:
  "cardsCreated (E1 @ E2) = cardsCreated E1 @ cardsCreated E2"
  "cardsEdited (E1 @ E2) = cardsEdited E1 @ cardsEdited E2"
  "cardsDeleted (E1 @ E2) = cardsDeleted E1 @ cardsDeleted E2"
  by (simp_all add: cardsCreated_def cardsEdited_def cardsDeleted_def map_filter_append)

lemma cards_Nil [simp]: "cardsCreated [] = []" "cardsEdited [] = []" "cardsDeleted [] = []"
  by (simp_all add: cardsCreated_def cardsEdited_def cardsDeleted_def List.map_filter_simps)

lemma cards_Cons [simp]:
  "cardsCreated (e # E) = (case createdCard e of None \<Rightarrow> cardsCreated E | Some x \<Rightarrow> x # cardsCreated E)"
  "cardsEdited (e # E) = (case editedCard e of None \<Rightarrow> cardsEdited E | Some x \<Rightarrow> x # cardsEdited E)"
  "cardsDeleted (e # E) = (case deletedCard e of None \<Rightarrow> cardsDeleted E | Some x \<Rightarrow> x # cardsDeleted E)"
  by (simp_all add: cardsCreated_def cardsEdited_def cardsDeleted_def List.map_filter_simps split: option.splits)

lemma deletedIds_simps [simp]:
  "deletedIds c [] = {}"
  "deletedIds c (E1 @ E2) = deletedIds c E1 \<union> deletedIds c E2"
  "deletedIds c [DeleteRequested c' sl m] = (if c' = c then {m} else {})"
  "deletedIds c [Sent c' p m] = {}"
  "deletedIds c [SendRejected c' p] = {}"
  "deletedIds c [Edited c' m p] = {}"
  by (auto simp: deletedIds_def)

lemma steps_refl: "steps c d [] d"
  by (simp add: steps_def)

lemma steps_trans: "steps c d E1 d1 \<Longrightarrow> steps c d1 E2 d2 \<Longrightarrow> steps c d (E1 @ E2) d2"
  by (auto simp: steps_def)

lemma steps_delete: "steps c d [DeleteRequested c sl m] (deleteMessage c sl m d)"
  by (auto simp: steps_def deleteMessage_def fetchMessage_def split: option.splits)

lemma steps_edit: "steps c d [Edited c m p] (editMessage c m p d)"
  by (auto simp: steps_def editMessage_def fetchMessage_def split: option.splits)

lemma steps_send:
  "send c p d = (r, d') \<Longrightarrow>
   steps c d [case r of None \<Rightarrow> SendRejected c p | Some m \<Rightarrow> Sent c p m] d'"
  by (auto simp: steps_def send_def fetchMessage_def split: option.splits list.splits)

lemma send_fetch: "send c p d = (Some m, d') \<Longrightarrow> fetchMessage c m d'"
  by (auto simp: send_def fetchMessage_def split: option.splits list.splits)

lemma steps_newEvents: "steps c d E d' \<Longrightarrow> newEvents d d' = E"
  by (simp add: steps_def newEvents_def)

lemma map_of_delete: "map_of (AList.delete k al) k' = (if k' = k then None else map_of al k')"
  by (simp add: AList.delete_conv')

lemma map_of_update: "map_of (AList.update k v al) k' = (if k' = k then Some v else map_of al k')"
  by (simp add: AList.update_conv')

lemma cleanupOfflineVip_step:
  assumes "cleanupOfflineVip c live x (store, d) = (store', d')"
  shows "\<exists>E. steps c d E d' \<and>
           cardsDeleted E = (if x \<in> live then [] else
              (case map_of (vipMessageIds store) x of None \<Rightarrow> [] | Some m \<Rightarrow> [(x, m)])) \<and>
           cardsCreated E = [] \<and> cardsEdited E = [] \<and>
           deletedIds c E \<subseteq> (if x \<in> live then {} else
              {m. map_of (vipMessageIds store) x = Some m \<or> map_of (vipClipMessageIds store) x = Some m}) \<and>
           (\<forall>y. map_of (vipMessageIds store') y =
                 (if y = x \<and> x \<notin> live then None else map_of (vipMessageIds store) y)) \<and>
           (\<forall>y. y \<noteq> x \<or> x \<in> live \<longrightarrow> map_of (vipClipMessageIds store') y = map_of (vipClipMessageIds store) y) \<and>
           headerId store' = headerId store \<and> footerId store' = footerId store"
proof (cases "x \<in> live")
  case True
  with assms show ?thesis
    by (intro exI[of _ "[]"]) (auto simp: cleanupOfflineVip_def steps_refl)
next
  case False
  let ?E1 = "case map_of (vipMessageIds store) x of None \<Rightarrow> [] | Some m \<Rightarrow> [DeleteRequested c (CardSlot x) m]"
  let ?d1 = "case map_of (vipMessageIds store) x of None \<Rightarrow> d | Some m \<Rightarrow> deleteMessage c (CardSlot x) m d"
  have s1: "steps c d ?E1 ?d1"
    by (auto split: option.splits intro: steps_refl steps_delete)
  show ?thesis
  proof (cases "map_of (vipClipMessageIds store) x")
    case None
    with assms False s1 show ?thesis
      by (intro exI[of _ ?E1])
         (auto simp: cleanupOfflineVip_def Let_def map_of_delete split: option.splits)
  next
    case (Some cm)
    show ?thesis
    proof (cases "cm = []")
      case True
      with Some assms False s1 show ?thesis
        by (intro exI[of _ ?E1])
           (auto simp: cleanupOfflineVip_def Let_def map_of_delete split: option.splits)
    next
      case F: False
      have "steps c d (?E1 @ [DeleteRequested c (ClipSlot x) cm]) (deleteMessage c (ClipSlot x) cm ?d1)"
        using s1 steps_delete by (rule steps_trans)
      with Some assms False F show ?thesis
        by (intro exI[of _ "?E1 @ [DeleteRequested c (ClipSlot x) cm]"])
           (auto simp: cleanupOfflineVip_def Let_def map_of_delete split: option.splits)
    qed
  qed
qed

lemma map_filter_cong':
  "(\<And>x. x \<in> set xs \<Longrightarrow> f x = g x) \<Longrightarrow> List.map_filter f xs = List.map_filter g xs"
  by (induction xs) (auto simp: List.map_filter_simps split: option.splits)

lemma cleanupOfflineVip_fold:
  assumes "distinct ks" "fold (cleanupOfflineVip c live) ks (store, d) = (store', d')"
  shows "\<exists>E. steps c d E d' \<and>
           cardsDeleted E = List.map_filter (\<lambda>x. if x \<in> live then None
                               else map_option (Pair x) (map_of (vipMessageIds store) x)) ks \<and>
           cardsCreated E = [] \<and> cardsEdited E = [] \<and>
           deletedIds c E \<subseteq> {m. \<exists>x \<in> set ks - live. map_of (vipMessageIds store) x = Some m
                                   \<or> map_of (vipClipMessageIds store) x = Some m} \<and>
           (\<forall>y. map_of (vipMessageIds store') y =
                 (if y \<in> set ks - live then None else map_of (vipMessageIds store) y)) \<and>
           (\<forall>y. y \<notin> set ks - live \<longrightarrow> map_of (vipClipMessageIds store') y = map_of (vipClipMessageIds store) y) \<and>
           headerId store' = headerId store \<and> footerId store' = footerId store"
  using assms
proof (induction ks arbitrary: store d)
  case Nil
  then show ?case by (intro exI[of _ "[]"]) (simp add: steps_refl List.map_filter_simps)
next
  case (Cons x ks)
  obtain s1 d1 where f: "cleanupOfflineVip c live x (store, d) = (s1, d1)"
    by (cases "cleanupOfflineVip c live x (store, d)")
  from cleanupOfflineVip_step [OF f] obtain E1 where
    E1: "steps c d E1 d1"
      "cardsDeleted E1 = (if x \<in> live then [] else
              (case map_of (vipMessageIds store) x of None \<Rightarrow> [] | Some m \<Rightarrow> [(x, m)]))"
      "cardsCreated E1 = []" "cardsEdited E1 = []"
      "deletedIds c E1 \<subseteq> (if x \<in> live then {} else
              {m. map_of (vipMessageIds store) x = Some m \<or> map_of (vipClipMessageIds store) x = Some m})"
      "\<forall>y. map_of (vipMessageIds s1) y =
                 (if y = x \<and> x \<notin> live then None else map_of (vipMessageIds store) y)"
      "\<forall>y. y \<noteq> x \<or> x \<in> live \<longrightarrow> map_of (vipClipMessageIds s1) y = map_of (vipClipMessageIds store) y"
      "headerId s1 = headerId store" "footerId s1 = footerId store"
    by blast
  have dk: "distinct ks" and xk: "x \<notin> set ks" using Cons.prems(1) by auto
  have r: "fold (cleanupOfflineVip c live) ks (s1, d1) = (store', d')"
    using Cons.prems(2) f by simp
  from Cons.IH [OF dk r] obtain E2 where
    E2: "steps c d1 E2 d'"
      "cardsDeleted E2 = List.map_filter (\<lambda>x. if x \<in> live then None
                               else map_option (Pair x) (map_of (vipMessageIds s1) x)) ks"
      "cardsCreated E2 = []" "cardsEdited E2 = []"
      "deletedIds c E2 \<subseteq> {m. \<exists>x \<in> set ks - live. map_of (vipMessageIds s1) x = Some m
                                   \<or> map_of (vipClipMessageIds s1) x = Some m}"
      "\<forall>y. map_of (vipMessageIds store') y =
                 (if y \<in> set ks - live then None else map_of (vipMessageIds s1) y)"
      "\<forall>y. y \<notin> set ks - live \<longrightarrow> map_of (vipClipMessageIds store') y = map_of (vipClipMessageIds s1) y"
      "headerId store' = headerId s1" "footerId store' = footerId s1"
    by blast
  have same: "\<And>y. y \<in> set ks \<Longrightarrow> map_of (vipMessageIds s1) y = map_of (vipMessageIds store) y"
             "\<And>y. y \<in> set ks \<Longrightarrow> map_of (vipClipMessageIds s1) y = map_of (vipClipMessageIds store) y"
    using E1(6,7) xk by auto
  have del2: "cardsDeleted E2 = List.map_filter (\<lambda>x. if x \<in> live then None
                               else map_option (Pair x) (map_of (vipMessageIds store) x)) ks"
    unfolding E2(2) by (rule map_filter_cong') (simp add: same)
  have ids2: "deletedIds c E2 \<subseteq> {m. \<exists>x \<in> set ks - live. map_of (vipMessageIds store) x = Some m
                                   \<or> map_of (vipClipMessageIds store) x = Some m}"
    using E2(5) same by fastforce
  show ?case
  proof (intro exI[of _ "E1 @ E2"] conjI)
    show "steps c d (E1 @ E2) d'" using E1(1) E2(1) by (rule steps_trans)
    show "cardsDeleted (E1 @ E2) = List.map_filter (\<lambda>x. if x \<in> live then None
            else map_option (Pair x) (map_of (vipMessageIds store) x)) (x # ks)"
      using E1(2) del2 by (auto simp: List.map_filter_simps split: option.splits)
    show "cardsCreated (E1 @ E2) = []" "cardsEdited (E1 @ E2) = []"
      using E1(3,4) E2(3,4) by simp_all
    show "deletedIds c (E1 @ E2) \<subseteq> {m. \<exists>x' \<in> set (x # ks) - live.
            map_of (vipMessageIds store) x' = Some m \<or> map_of (vipClipMessageIds store) x' = Some m}"
      using E1(5) ids2 by (auto split: if_splits)
    show "\<forall>y. map_of (vipMessageIds store') y =
            (if y \<in> set (x # ks) - live then None else map_of (vipMessageIds store) y)"
      using E1(6) E2(6) by auto
    show "\<forall>y. y \<notin> set (x # ks) - live \<longrightarrow>
            map_of (vipClipMessageIds store') y = map_of (vipClipMessageIds store) y"
      using E1(7) E2(7) by auto
    show "headerId store' = headerId store" "footerId store' = footerId store"
      using E1(8,9) E2(8,9) by simp_all
  qed
qed

lemma map_filter_keys:
  "distinct (map fst P) \<Longrightarrow>
   List.map_filter (\<lambda>x. if x \<in> live then None else map_option (Pair x) (map_of P x)) (map fst P)
     = filter (\<lambda>xm. fst xm \<notin> live) P"
proof (induction P)
  case Nil
  then show ?case by (simp add: List.map_filter_simps)
next
  case (Cons a P)
  have "List.map_filter (\<lambda>x. if x \<in> live then None else map_option (Pair x) (map_of (a # P) x)) (map fst P)
        = List.map_filter (\<lambda>x. if x \<in> live then None else map_option (Pair x) (map_of P x)) (map fst P)"
    using Cons.prems by (intro map_filter_cong') (auto simp: rev_image_eqI)
  with Cons show ?case
    by (cases a) (auto simp: List.map_filter_simps)
qed

lemma updateVipCard_Inr:
  assumes "updateVipCard c x (store, d) = Inr (s1, d1)"
    and known: "\<forall>m. map_of (vipMessageIds store) x = Some m \<longrightarrow> m \<noteq> [] \<and> fetchMessage c m d"
  shows "\<exists>E. steps c d E d1 \<and> deletedIds c E = {} \<and> cardsDeleted E = [] \<and>
           cardsCreated E = (if map_of (vipMessageIds store) x = None then [x] else []) \<and>
           cardsEdited E = (case map_of (vipMessageIds store) x of None \<Rightarrow> [] | Some m \<Rightarrow> [(x, m)]) \<and>
           (\<forall>y. y \<noteq> x \<longrightarrow> map_of (vipMessageIds s1) y = map_of (vipMessageIds store) y) \<and>
           vipClipMessageIds s1 = vipClipMessageIds store \<and>
           headerId s1 = headerId store \<and> footerId s1 = footerId store"
proof (cases "map_of (vipMessageIds store) x")
  case None
  from assms(1) None obtain newId where
    snd: "send c (VipEmbed x) d = (Some newId, d1)"
    and s1: "s1 = store\<lparr>vipMessageIds := AList.update x newId (vipMessageIds store)\<rparr>"
    by (auto simp: updateVipCard_def Let_def split: prod.splits option.splits)
  from steps_send [OF snd] have "steps c d [Sent c (VipEmbed x) newId] d1" by simp
  then show ?thesis using None s1
    by (intro exI[of _ "[Sent c (VipEmbed x) newId]"]) (simp add: map_of_update)
next
  case (Some m)
  with known have "m \<noteq> []" "fetchMessage c m d" by auto
  with assms(1) Some have "s1 = store" "d1 = editMessage c m (VipEmbed x) d"
    by (auto simp: updateVipCard_def Let_def)
  then show ?thesis using Some steps_edit [of c d m "VipEmbed x"]
    by (intro exI[of _ "[Edited c m (VipEmbed x)]"]) simp
qed

lemma replaceVipClip_step:
  assumes "replaceVipClip c clipf x (store, d) = (s2, d2)"
  shows "\<exists>E. steps c d E d2 \<and> deletedIds c E \<subseteq> {m. map_of (vipClipMessageIds store) x = Some m} \<and>
           cardsDeleted E = [] \<and> cardsCreated E = [] \<and> cardsEdited E = [] \<and>
           vipMessageIds s2 = vipMessageIds store \<and>
           (\<forall>y. y \<noteq> x \<longrightarrow> map_of (vipClipMessageIds s2) y = map_of (vipClipMessageIds store) y) \<and>
           headerId s2 = headerId store \<and> footerId s2 = footerId store"
proof -
  define posted where "posted =
     (if clipf x then
        (case send c (ClipGifMessage x) d of
           (Some newId, d') \<Rightarrow>
             (store\<lparr>vipClipMessageIds := AList.update x newId (vipClipMessageIds store)\<rparr>, d')
         | (None, d') \<Rightarrow> (store, d'))
      else (store, d))"
  have p: "\<exists>E. steps c d E (snd posted) \<and> deletedIds c E = {} \<and>
             cardsDeleted E = [] \<and> cardsCreated E = [] \<and> cardsEdited E = [] \<and>
             vipMessageIds (fst posted) = vipMessageIds store \<and>
             (\<forall>y. y \<noteq> x \<longrightarrow> map_of (vipClipMessageIds (fst posted)) y = map_of (vipClipMessageIds store) y) \<and>
             headerId (fst posted) = headerId store \<and> footerId (fst posted) = footerId store"
  proof (cases "clipf x")
    case False
    then show ?thesis by (intro exI[of _ "[]"]) (simp add: posted_def steps_refl)
  next
    case True
    obtain r d' where s: "send c (ClipGifMessage x) d = (r, d')"
      by (cases "send c (ClipGifMessage x) d")
    from steps_send [OF s] True s show ?thesis
      by (intro exI[of _ "[case r of None \<Rightarrow> SendRejected c (ClipGifMessage x)
                                   | Some m \<Rightarrow> Sent c (ClipGifMessage x) m]"])
         (auto simp: posted_def map_of_update split: option.splits)
  qed
  then obtain E where E: "steps c d E (snd posted)" "deletedIds c E = {}"
      "cardsDeleted E = []" "cardsCreated E = []" "cardsEdited E = []"
      "vipMessageIds (fst posted) = vipMessageIds store"
      "\<forall>y. y \<noteq> x \<longrightarrow> map_of (vipClipMessageIds (fst posted)) y = map_of (vipClipMessageIds store) y"
      "headerId (fst posted) = headerId store" "footerId (fst posted) = footerId store"
    by blast
  have "replaceVipClip c clipf x (store, d) = (if truthy (map_of (vipClipMessageIds store) x)
             then (fst posted, deleteMessage c (ClipSlot x) (the (map_of (vipClipMessageIds store) x)) (snd posted))
             else posted)"
    unfolding replaceVipClip_def Let_def posted_def by simp
  then have r: "(s2, d2) = (if truthy (map_of (vipClipMessageIds store) x)
             then (fst posted, deleteMessage c (ClipSlot x) (the (map_of (vipClipMessageIds store) x)) (snd posted))
             else posted)"
    using assms by simp
  show ?thesis
  proof (cases "truthy (map_of (vipClipMessageIds store) x)")
    case False
    with r E show ?thesis by (intro exI[of _ E]) (auto simp: prod_eq_iff)
  next
    case True
    then obtain old where old: "map_of (vipClipMessageIds store) x = Some old"
      by (cases "map_of (vipClipMessageIds store) x") auto
    have "steps c d (E @ [DeleteRequested c (ClipSlot x) old])
            (deleteMessage c (ClipSlot x) old (snd posted))"
      using E(1) steps_delete by (rule steps_trans)
    with r True old E show ?thesis
      by (intro exI[of _ "E @ [DeleteRequested c (ClipSlot x) old]"]) auto
  qed
qed

lemma updateLiveVips_Inr:
  assumes "updateLiveVips c clipf L (store, d) = Inr (store', d')"
    and "distinct L"
    and "\<forall>x\<in>set L. \<forall>m. map_of (vipMessageIds store) x = Some m \<longrightarrow> m \<noteq> [] \<and> fetchMessage c m d"
    and "\<forall>x\<in>set L. \<forall>y\<in>set L. \<forall>m. map_of (vipMessageIds store) x = Some m
           \<longrightarrow> map_of (vipClipMessageIds store) y \<noteq> Some m"
  shows "\<exists>E. steps c d E d' \<and> cardsDeleted E = [] \<and>
           cardsCreated E = filter (\<lambda>x. map_of (vipMessageIds store) x = None) L \<and>
           cardsEdited E = List.map_filter (\<lambda>x. map_option (Pair x) (map_of (vipMessageIds store) x)) L \<and>
           headerId store' = headerId store \<and> footerId store' = footerId store"
  using assms
proof (induction L arbitrary: store d)
  case Nil
  then show ?case by (intro exI[of _ "[]"]) (simp add: steps_refl List.map_filter_simps)
next
  case (Cons x L)
  from Cons.prems(1) obtain s1 d1 where
    u: "updateVipCard c x (store, d) = Inr (s1, d1)"
    and rest: "updateLiveVips c clipf L (replaceVipClip c clipf x (s1, d1)) = Inr (store', d')"
    by (auto split: sum.splits)
  obtain s2 d2 where rp: "replaceVipClip c clipf x (s1, d1) = (s2, d2)"
    by (cases "replaceVipClip c clipf x (s1, d1)")
  have known: "\<forall>m. map_of (vipMessageIds store) x = Some m \<longrightarrow> m \<noteq> [] \<and> fetchMessage c m d"
    using Cons.prems(3) by simp
  from updateVipCard_Inr [OF u known] obtain E1 where
    E1: "steps c d E1 d1" "deletedIds c E1 = {}" "cardsDeleted E1 = []"
      "cardsCreated E1 = (if map_of (vipMessageIds store) x = None then [x] else [])"
      "cardsEdited E1 = (case map_of (vipMessageIds store) x of None \<Rightarrow> [] | Some m \<Rightarrow> [(x, m)])"
      "\<forall>y. y \<noteq> x \<longrightarrow> map_of (vipMessageIds s1) y = map_of (vipMessageIds store) y"
      "vipClipMessageIds s1 = vipClipMessageIds store"
      "headerId s1 = headerId store" "footerId s1 = footerId store"
    by blast
  from replaceVipClip_step [OF rp] obtain E2 where
    E2: "steps c d1 E2 d2" "deletedIds c E2 \<subseteq> {m. map_of (vipClipMessageIds s1) x = Some m}"
      "cardsDeleted E2 = []" "cardsCreated E2 = []" "cardsEdited E2 = []"
      "vipMessageIds s2 = vipMessageIds s1"
      "\<forall>y. y \<noteq> x \<longrightarrow> map_of (vipClipMessageIds s2) y = map_of (vipClipMessageIds s1) y"
      "headerId s2 = headerId s1" "footerId s2 = footerId s1"
    by blast
  have xL: "x \<notin> set L" and dL: "distinct L" using Cons.prems(2) by auto
  have cards: "\<And>y. y \<in> set L \<Longrightarrow> map_of (vipMessageIds s2) y = map_of (vipMessageIds store) y"
    using E1(6) E2(6) xL by auto
  have clips: "\<And>y. y \<in> set L \<Longrightarrow> map_of (vipClipMessageIds s2) y = map_of (vipClipMessageIds store) y"
    using E1(7) E2(7) xL by auto
  have s12: "steps c d (E1 @ E2) d2" using E1(1) E2(1) by (rule steps_trans)
  have inv1: "\<forall>y\<in>set L. \<forall>m. map_of (vipMessageIds s2) y = Some m \<longrightarrow> m \<noteq> [] \<and> fetchMessage c m d2"
  proof (intro ballI allI impI)
    fix y m assume y: "y \<in> set L" and m: "map_of (vipMessageIds s2) y = Some m"
    then have m0: "map_of (vipMessageIds store) y = Some m" using cards by simp
    then have a: "m \<noteq> []" "fetchMessage c m d" using Cons.prems(3) y by auto
    have "map_of (vipClipMessageIds store) x \<noteq> Some m" using Cons.prems(4) y m0 by auto
    then have "m \<notin> deletedIds c (E1 @ E2)" using E1(2,7) E2(2) by auto
    with s12 a show "m \<noteq> [] \<and> fetchMessage c m d2" by (auto simp: steps_def)
  qed
  have inv2: "\<forall>y\<in>set L. \<forall>z\<in>set L. \<forall>m. map_of (vipMessageIds s2) y = Some m
                \<longrightarrow> map_of (vipClipMessageIds s2) z \<noteq> Some m"
    using Cons.prems(4) cards clips by auto
  have rest': "updateLiveVips c clipf L (s2, d2) = Inr (store', d')" using rest rp by simp
  from Cons.IH [OF rest' dL inv1 inv2] obtain E3 where
    E3: "steps c d2 E3 d'" "cardsDeleted E3 = []"
      "cardsCreated E3 = filter (\<lambda>x. map_of (vipMessageIds s2) x = None) L"
      "cardsEdited E3 = List.map_filter (\<lambda>x. map_option (Pair x) (map_of (vipMessageIds s2) x)) L"
      "headerId store' = headerId s2" "footerId store' = footerId s2"
    by blast
  have c3: "cardsCreated E3 = filter (\<lambda>x. map_of (vipMessageIds store) x = None) L"
    unfolding E3(3) by (rule filter_cong) (simp_all add: cards)
  have e3: "cardsEdited E3 = List.map_filter (\<lambda>x. map_option (Pair x) (map_of (vipMessageIds store) x)) L"
    unfolding E3(4) by (rule map_filter_cong') (simp add: cards)
  show ?case
  proof (intro exI[of _ "(E1 @ E2) @ E3"] conjI)
    show "steps c d ((E1 @ E2) @ E3) d'" using s12 E3(1) by (rule steps_trans)
    show "cardsDeleted ((E1 @ E2) @ E3) = []" using E1(3) E2(3) E3(2) by simp
    show "cardsCreated ((E1 @ E2) @ E3) = filter (\<lambda>x. map_of (vipMessageIds store) x = None) (x # L)"
      using E1(4) E2(4) c3 by simp
    show "cardsEdited ((E1 @ E2) @ E3)
          = List.map_filter (\<lambda>x. map_option (Pair x) (map_of (vipMessageIds store) x)) (x # L)"
      using E1(5) E2(5) e3 by (simp add: List.map_filter_simps split: option.splits)
    show "headerId store' = headerId store" "footerId store' = footerId store"
      using E1(8,9) E2(8,9) E3(5,6) by simp_all
  qed
qed

lemma send_events:
  "send c p d = (r, d') \<Longrightarrow>
   events d' = events d @ [case r of None \<Rightarrow> SendRejected c p | Some m \<Rightarrow> Sent c p m]"
  by (auto simp: send_def split: option.splits list.splits)

lemma refreshVipFooter_events:
  assumes "refreshVipFooter c i n (s, d) = Inr (s', d')"
  shows "\<exists>E. events d' = events d @ E \<and> cardsCreated E = [] \<and> cardsEdited E = [] \<and> cardsDeleted E = []"
proof -
  have del: "\<And>f. events (deleteMessage c FooterSlot f d) = events d @ [DeleteRequested c FooterSlot f]"
    by (simp add: deleteMessage_def)
  have ed: "\<And>f. events (editMessage c f (FooterEmbed n) d) = events d @ [Edited c f (FooterEmbed n)]"
    by (simp add: editMessage_def)
  consider (repost) f newId where "send c (FooterEmbed n) (deleteMessage c FooterSlot f d) = (Some newId, d')"
    | (edit) f where "d' = editMessage c f (FooterEmbed n) d"
    | (fresh) newId where "send c (FooterEmbed n) d = (Some newId, d')"
    | (none) "d' = d"
    using assms
    by (auto simp: refreshVipFooter_def split: if_splits prod.splits option.splits)
  then show ?thesis
  proof cases
    case (repost f newId)
    from send_events [OF repost] del [of f] show ?thesis
      by (intro exI[of _ "[DeleteRequested c FooterSlot f] @ [Sent c (FooterEmbed n) newId]"]) simp
  next
    case (edit f)
    with ed [of f] show ?thesis
      by (intro exI[of _ "[Edited c f (FooterEmbed n)]"]) simp
  next
    case (fresh newId)
    from send_events [OF fresh] show ?thesis
      by (intro exI[of _ "[Sent c (FooterEmbed n) newId]"]) simp
  next
    case none
    then show ?thesis by (intro exI[of _ "[]"]) simp
  qed
qed

lemma distinct_snd_inj:
  "distinct (map snd P) \<Longrightarrow> map_of P x = Some m \<Longrightarrow> map_of P y = Some m \<Longrightarrow> x = y"
proof (induction P)
  case Nil
  then show ?case by simp
next
  case (Cons a P)
  then show ?case
    by (cases a) (auto split: if_splits dest!: map_of_SomeD simp: rev_image_eqI)
qed

lemma reconcileVips_cards:
  assumes P: "cardsPosted c (vipMessageIds store) d"
    and disj: "set (map snd (vipMessageIds store)) \<inter> set (map snd (vipClipMessageIds store)) = {}"
    and L: "L = map live_twitchId (mergeLive (liveStreams fd) (getUsersFromDb fd))" "distinct L"
    and run: "reconcileVips c i fd (store, d) = Inr (store', d')"
  shows "cardsDeleted (newEvents d d') = filter (\<lambda>xm. fst xm \<notin> set L) (vipMessageIds store) \<and>
         cardsCreated (newEvents d d') = filter (\<lambda>x. x \<notin> fst ` set (vipMessageIds store)) L \<and>
         cardsEdited (newEvents d d')
           = List.map_filter (\<lambda>x. map_option (Pair x) (map_of (vipMessageIds store) x)) L"
proof -
  let ?P = "vipMessageIds store" and ?C = "vipClipMessageIds store"
  have dk: "distinct (map fst ?P)" and dv: "distinct (map snd ?P)"
    and ok: "\<And>m. m \<in> snd ` set ?P \<Longrightarrow> m \<noteq> [] \<and> fetchMessage c m d"
    using P by (auto simp: cardsPosted_def)
  obtain s1 d1 where cl: "fold (cleanupOfflineVip c (set L)) (map fst ?P) (store, d) = (s1, d1)"
    by (cases "fold (cleanupOfflineVip c (set L)) (map fst ?P) (store, d)")
  from run L(1) cl obtain s2 d2 where
    up: "updateLiveVips c (clipFor fd) L (s1, d1) = Inr (s2, d2)"
    and ft: "refreshVipFooter c i (length (mergeLive (liveStreams fd) (getUsersFromDb fd))) (s2, d2) = Inr (store', d')"
    by (auto simp: reconcileVips_def Let_def split: sum.splits)
  from cleanupOfflineVip_fold [OF dk cl] obtain E1 where
    E1: "steps c d E1 d1"
      "cardsDeleted E1 = List.map_filter (\<lambda>x. if x \<in> set L then None
                               else map_option (Pair x) (map_of ?P x)) (map fst ?P)"
      "cardsCreated E1 = []" "cardsEdited E1 = []"
      "deletedIds c E1 \<subseteq> {m. \<exists>x \<in> set (map fst ?P) - set L. map_of ?P x = Some m
                                   \<or> map_of ?C x = Some m}"
      "\<forall>y. map_of (vipMessageIds s1) y =
                 (if y \<in> set (map fst ?P) - set L then None else map_of ?P y)"
      "\<forall>y. y \<notin> set (map fst ?P) - set L \<longrightarrow> map_of (vipClipMessageIds s1) y = map_of ?C y"
    by blast
  have cards1: "\<And>x. x \<in> set L \<Longrightarrow> map_of (vipMessageIds s1) x = map_of ?P x"
    and clips1: "\<And>x. x \<in> set L \<Longrightarrow> map_of (vipClipMessageIds s1) x = map_of ?C x"
    using E1(6,7) by auto
  have inv1: "\<forall>x\<in>set L. \<forall>m. map_of (vipMessageIds s1) x = Some m \<longrightarrow> m \<noteq> [] \<and> fetchMessage c m d1"
  proof (intro ballI allI impI)
    fix x m assume x: "x \<in> set L" and "map_of (vipMessageIds s1) x = Some m"
    then have m: "map_of ?P x = Some m" using cards1 by simp
    then have mP: "m \<in> snd ` set ?P" by (force dest: map_of_SomeD)
    have "m \<notin> deletedIds c E1"
    proof
      assume "m \<in> deletedIds c E1"
      with E1(5) obtain y where y: "y \<in> set (map fst ?P) - set L"
        and my: "map_of ?P y = Some m \<or> map_of ?C y = Some m" by blast
      from my show False
      proof
        assume a: "map_of ?P y = Some m"
        from distinct_snd_inj [OF dv m a] x y show False by simp
      next
        assume "map_of ?C y = Some m"
        then have "m \<in> snd ` set ?C" by (force dest: map_of_SomeD)
        with mP disj show False by auto
      qed
    qed
    with ok [OF mP] E1(1) show "m \<noteq> [] \<and> fetchMessage c m d1" by (auto simp: steps_def)
  qed
  have inv2: "\<forall>x\<in>set L. \<forall>y\<in>set L. \<forall>m. map_of (vipMessageIds s1) x = Some m
                \<longrightarrow> map_of (vipClipMessageIds s1) y \<noteq> Some m"
  proof (intro ballI allI impI notI)
    fix x y m assume "x \<in> set L" "y \<in> set L" "map_of (vipMessageIds s1) x = Some m"
      "map_of (vipClipMessageIds s1) y = Some m"
    then have "map_of ?P x = Some m" "map_of ?C y = Some m" using cards1 clips1 by simp_all
    then have "m \<in> snd ` set ?P" "m \<in> snd ` set ?C" by (force dest: map_of_SomeD)+
    with disj show False by auto
  qed
  from updateLiveVips_Inr [OF up L(2) inv1 inv2] obtain E2 where
    E2: "steps c d1 E2 d2" "cardsDeleted E2 = []"
      "cardsCreated E2 = filter (\<lambda>x. map_of (vipMessageIds s1) x = None) L"
      "cardsEdited E2 = List.map_filter (\<lambda>x. map_option (Pair x) (map_of (vipMessageIds s1) x)) L"
    by blast
  from refreshVipFooter_events [OF ft] obtain E3 where
    E3: "events d' = events d2 @ E3" "cardsCreated E3 = []" "cardsEdited E3 = []" "cardsDeleted E3 = []"
    by blast
  have ev: "newEvents d d' = E1 @ E2 @ E3"
    using E1(1) E2(1) E3(1) by (simp add: steps_def newEvents_def)
  have c2: "cardsCreated E2 = filter (\<lambda>x. x \<notin> fst ` set ?P) L"
    unfolding E2(3) by (rule filter_cong) (simp_all add: cards1 map_of_eq_None_iff)
  have e2: "cardsEdited E2 = List.map_filter (\<lambda>x. map_option (Pair x) (map_of ?P x)) L"
    unfolding E2(4) by (rule map_filter_cong') (simp add: cards1)
  show ?thesis
    using ev E1(2,3,4) E2(2) c2 e2 E3(2,3,4) map_filter_keys [OF dk, of "set L"] by simp
qed

lemma cleanupOfflinePoolUser_fold:
  assumes "distinct ks" "fold (cleanupOfflinePoolUser c live) ks (store, d) = (store', d')"
  shows "\<exists>E. steps c d E d' \<and>
           cardsDeleted E = List.map_filter (\<lambda>x. if x \<in> live then None
                               else map_option (Pair x) (map_of (userMessageIds store) x)) ks \<and>
           cardsCreated E = [] \<and> cardsEdited E = [] \<and>
           deletedIds c E \<subseteq> {m. \<exists>x \<in> set ks - live. map_of (userMessageIds store) x = Some m} \<and>
           (\<forall>y. map_of (userMessageIds store') y =
                 (if y \<in> set ks - live then None else map_of (userMessageIds store) y))"
  using assms
proof (induction ks arbitrary: store d)
  case Nil
  then show ?case by (intro exI[of _ "[]"]) (simp add: steps_refl List.map_filter_simps)
next
  case (Cons x ks)
  define E1 where "E1 = (if x \<in> live then [] else
     (case map_of (userMessageIds store) x of None \<Rightarrow> [] | Some m \<Rightarrow> [DeleteRequested c (CardSlot x) m]))"
  obtain s1 d1 where f: "cleanupOfflinePoolUser c live x (store, d) = (s1, d1)"
    by (cases "cleanupOfflinePoolUser c live x (store, d)")
  have st1: "steps c d E1 d1"
    using f by (auto simp: cleanupOfflinePoolUser_def E1_def steps_refl steps_delete
                     split: if_splits option.splits)
  have m1: "\<forall>y. map_of (userMessageIds s1) y =
               (if y = x \<and> x \<notin> live then None else map_of (userMessageIds store) y)"
    using f by (auto simp: cleanupOfflinePoolUser_def map_of_delete split: if_splits)
  have dk: "distinct ks" and xk: "x \<notin> set ks" using Cons.prems(1) by auto
  have r: "fold (cleanupOfflinePoolUser c live) ks (s1, d1) = (store', d')"
    using Cons.prems(2) f by simp
  from Cons.IH [OF dk r] obtain E2 where
    E2: "steps c d1 E2 d'"
      "cardsDeleted E2 = List.map_filter (\<lambda>x. if x \<in> live then None
                               else map_option (Pair x) (map_of (userMessageIds s1) x)) ks"
      "cardsCreated E2 = []" "cardsEdited E2 = []"
      "deletedIds c E2 \<subseteq> {m. \<exists>x \<in> set ks - live. map_of (userMessageIds s1) x = Some m}"
      "\<forall>y. map_of (userMessageIds store') y =
                 (if y \<in> set ks - live then None else map_of (userMessageIds s1) y)"
    by blast
  have same: "\<And>y. y \<in> set ks \<Longrightarrow> map_of (userMessageIds s1) y = map_of (userMessageIds store) y"
    using m1 xk by auto
  have del2: "cardsDeleted E2 = List.map_filter (\<lambda>x. if x \<in> live then None
                               else map_option (Pair x) (map_of (userMessageIds store) x)) ks"
    unfolding E2(2) by (rule map_filter_cong') (simp add: same)
  have ids2: "deletedIds c E2 \<subseteq> {m. \<exists>x \<in> set ks - live. map_of (userMessageIds store) x = Some m}"
    using E2(5) same by fastforce
  show ?case
  proof (intro exI[of _ "E1 @ E2"] conjI)
    show "steps c d (E1 @ E2) d'" using st1 E2(1) by (rule steps_trans)
    show "cardsDeleted (E1 @ E2) = List.map_filter (\<lambda>x. if x \<in> live then None
            else map_option (Pair x) (map_of (userMessageIds store) x)) (x # ks)"
      using del2 by (auto simp: E1_def List.map_filter_simps split: option.splits)
    show "cardsCreated (E1 @ E2) = []" "cardsEdited (E1 @ E2) = []"
      using E2(3,4) by (simp_all add: E1_def split: option.splits)
    show "deletedIds c (E1 @ E2) \<subseteq> {m. \<exists>x' \<in> set (x # ks) - live.
            map_of (userMessageIds store) x' = Some m}"
      using ids2 by (auto simp: E1_def split: if_splits option.splits)
    show "\<forall>y. map_of (userMessageIds store') y =
            (if y \<in> set (x # ks) - live then None else map_of (userMessageIds store) y)"
      using m1 E2(6) by auto
  qed
qed

lemma updatePoolCard_Inr:
  assumes "updatePoolCard c spot x (store, d) = Inr (s1, d1)"
    and known: "\<forall>m. map_of (userMessageIds store) x = Some m \<longrightarrow> m \<noteq> [] \<and> fetchMessage c m d"
  shows "\<exists>E. steps c d E d1 \<and> deletedIds c E = {} \<and> cardsDeleted E = [] \<and>
           cardsCreated E = (if map_of (userMessageIds store) x = None then [x] else []) \<and>
           cardsEdited E = (case map_of (userMessageIds store) x of None \<Rightarrow> [] | Some m \<Rightarrow> [(x, m)]) \<and>
           (\<forall>y. y \<noteq> x \<longrightarrow> map_of (userMessageIds s1) y = map_of (userMessageIds store) y)"
proof (cases "map_of (userMessageIds store) x")
  case None
  from assms(1) None obtain newId where
    snd: "send c (SpotlightEmbed x (spot = Some x)) d = (Some newId, d1)"
    and s1: "s1 = store\<lparr>userMessageIds := AList.update x newId (userMessageIds store)\<rparr>"
    by (auto simp: updatePoolCard_def Let_def split: prod.splits option.splits)
  from steps_send [OF snd] have "steps c d [Sent c (SpotlightEmbed x (spot = Some x)) newId] d1" by simp
  then show ?thesis using None s1
    by (intro exI[of _ "[Sent c (SpotlightEmbed x (spot = Some x)) newId]"]) (simp add: map_of_update)
next
  case (Some m)
  with known have "m \<noteq> []" "fetchMessage c m d" by auto
  with assms(1) Some have "s1 = store" "d1 = editMessage c m (SpotlightEmbed x (spot = Some x)) d"
    by (auto simp: updatePoolCard_def Let_def)
  then show ?thesis using Some steps_edit [of c d m "SpotlightEmbed x (spot = Some x)"]
    by (intro exI[of _ "[Edited c m (SpotlightEmbed x (spot = Some x))]"]) simp
qed

lemma updateLivePoolUsers_Inr:
  assumes "updateLivePoolUsers c spot L (store, d) = Inr (store', d')"
    and "distinct L"
    and "\<forall>x\<in>set L. \<forall>m. map_of (userMessageIds store) x = Some m \<longrightarrow> m \<noteq> [] \<and> fetchMessage c m d"
  shows "\<exists>E. steps c d E d' \<and> cardsDeleted E = [] \<and>
           cardsCreated E = filter (\<lambda>x. map_of (userMessageIds store) x = None) L \<and>
           cardsEdited E = List.map_filter (\<lambda>x. map_option (Pair x) (map_of (userMessageIds store) x)) L"
  using assms
proof (induction L arbitrary: store d)
  case Nil
  then show ?case by (intro exI[of _ "[]"]) (simp add: steps_refl List.map_filter_simps)
next
  case (Cons x L)
  from Cons.prems(1) obtain s1 d1 where
    u: "updatePoolCard c spot x (store, d) = Inr (s1, d1)"
    and rest: "updateLivePoolUsers c spot L (s1, d1) = Inr (store', d')"
    by (auto split: sum.splits)
  have known: "\<forall>m. map_of (userMessageIds store) x = Some m \<longrightarrow> m \<noteq> [] \<and> fetchMessage c m d"
    using Cons.prems(3) by simp
  from updatePoolCard_Inr [OF u known] obtain E1 where
    E1: "steps c d E1 d1" "deletedIds c E1 = {}" "cardsDeleted E1 = []"
      "cardsCreated E1 = (if map_of (userMessageIds store) x = None then [x] else [])"
      "cardsEdited E1 = (case map_of (userMessageIds store) x of None \<Rightarrow> [] | Some m \<Rightarrow> [(x, m)])"
      "\<forall>y. y \<noteq> x \<longrightarrow> map_of (userMessageIds s1) y = map_of (userMessageIds store) y"
    by blast
  have xL: "x \<notin> set L" and dL: "distinct L" using Cons.prems(2) by auto
  have cards: "\<And>y. y \<in> set L \<Longrightarrow> map_of (userMessageIds s1) y = map_of (userMessageIds store) y"
    using E1(6) xL by auto
  have inv1: "\<forall>y\<in>set L. \<forall>m. map_of (userMessageIds s1) y = Some m \<longrightarrow> m \<noteq> [] \<and> fetchMessage c m d1"
    using Cons.prems(3) cards E1(1,2) by (auto simp: steps_def)
  from Cons.IH [OF rest dL inv1] obtain E3 where
    E3: "steps c d1 E3 d'" "cardsDeleted E3 = []"
      "cardsCreated E3 = filter (\<lambda>x. map_of (userMessageIds s1) x = None) L"
      "cardsEdited E3 = List.map_filter (\<lambda>x. map_option (Pair x) (map_of (userMessageIds s1) x)) L"
    by blast
  have c3: "cardsCreated E3 = filter (\<lambda>x. map_of (userMessageIds store) x = None) L"
    unfolding E3(3) by (rule filter_cong) (simp_all add: cards)
  have e3: "cardsEdited E3 = List.map_filter (\<lambda>x. map_option (Pair x) (map_of (userMessageIds store) x)) L"
    unfolding E3(4) by (rule map_filter_cong') (simp add: cards)
  show ?case
  proof (intro exI[of _ "E1 @ E3"] conjI)
    show "steps c d (E1 @ E3) d'" using E1(1) E3(1) by (rule steps_trans)
    show "cardsDeleted (E1 @ E3) = []" using E1(3) E3(2) by simp
    show "cardsCreated (E1 @ E3) = filter (\<lambda>x. map_of (userMessageIds store) x = None) (x # L)"
      using E1(4) c3 by simp
    show "cardsEdited (E1 @ E3)
          = List.map_filter (\<lambda>x. map_option (Pair x) (map_of (userMessageIds store) x)) (x # L)"
      using E1(5) e3 by (simp add: List.map_filter_simps split: option.splits)
  qed
qed

lemma refreshPoolFooter_events:
  assumes "refreshPoolFooter c i n (s, d) = Inr (s', d')"
  shows "\<exists>E. events d' = events d @ E \<and> cardsCreated E = [] \<and> cardsEdited E = [] \<and> cardsDeleted E = []"
proof -
  have del: "\<And>f. events (deleteMessage c FooterSlot f d) = events d @ [DeleteRequested c FooterSlot f]"
    by (simp add: deleteMessage_def)
  have ed: "\<And>f. events (editMessage c f (FooterEmbed n) d) = events d @ [Edited c f (FooterEmbed n)]"
    by (simp add: editMessage_def)
  consider (repost) f newId where "send c (FooterEmbed n) (deleteMessage c FooterSlot f d) = (Some newId, d')"
    | (edit) f where "d' = editMessage c f (FooterEmbed n) d"
    | (fresh) newId where "send c (FooterEmbed n) d = (Some newId, d')"
    | (none) "d' = d"
    using assms
    by (auto simp: refreshPoolFooter_def split: if_splits prod.splits option.splits)
  then show ?thesis
  proof cases
    case (repost f newId)
    from send_events [OF repost] del [of f] show ?thesis
      by (intro exI[of _ "[DeleteRequested c FooterSlot f] @ [Sent c (FooterEmbed n) newId]"]) simp
  next
    case (edit f)
    with ed [of f] show ?thesis
      by (intro exI[of _ "[Edited c f (FooterEmbed n)]"]) simp
  next
    case (fresh newId)
    from send_events [OF fresh] show ?thesis
      by (intro exI[of _ "[Sent c (FooterEmbed n) newId]"]) simp
  next
    case none
    then show ?thesis by (intro exI[of _ "[]"]) simp
  qed
qed

lemma reconcilePool_cards:
  assumes P: "cardsPosted c (userMessageIds store) d"
    and L: "L = map live_twitchId liveUsers" "distinct L"
    and run: "reconcilePool c i liveUsers spot (store, d) = Inr (store', d')"
  shows "cardsDeleted (newEvents d d') = filter (\<lambda>xm. fst xm \<notin> set L) (userMessageIds store) \<and>
         cardsCreated (newEvents d d') = filter (\<lambda>x. x \<notin> fst ` set (userMessageIds store)) L \<and>
         cardsEdited (newEvents d d')
           = List.map_filter (\<lambda>x. map_option (Pair x) (map_of (userMessageIds store) x)) L"
proof -
  let ?P = "userMessageIds store"
  have dk: "distinct (map fst ?P)" and dv: "distinct (map snd ?P)"
    and ok: "\<And>m. m \<in> snd ` set ?P \<Longrightarrow> m \<noteq> [] \<and> fetchMessage c m d"
    using P by (auto simp: cardsPosted_def)
  obtain s1 d1 where cl: "fold (cleanupOfflinePoolUser c (set L)) (map fst ?P) (store, d) = (s1, d1)"
    by (cases "fold (cleanupOfflinePoolUser c (set L)) (map fst ?P) (store, d)")
  from run L(1) cl obtain s2 d2 where
    up: "updateLivePoolUsers c spot L (s1, d1) = Inr (s2, d2)"
    and ft: "refreshPoolFooter c i (length liveUsers) (s2, d2) = Inr (store', d')"
    by (auto simp: reconcilePool_def Let_def split: sum.splits)
  from cleanupOfflinePoolUser_fold [OF dk cl] obtain E1 where
    E1: "steps c d E1 d1"
      "cardsDeleted E1 = List.map_filter (\<lambda>x. if x \<in> set L then None
                               else map_option (Pair x) (map_of ?P x)) (map fst ?P)"
      "cardsCreated E1 = []" "cardsEdited E1 = []"
      "deletedIds c E1 \<subseteq> {m. \<exists>x \<in> set (map fst ?P) - set L. map_of ?P x = Some m}"
      "\<forall>y. map_of (userMessageIds s1) y =
                 (if y \<in> set (map fst ?P) - set L then None else map_of ?P y)"
    by blast
  have cards1: "\<And>x. x \<in> set L \<Longrightarrow> map_of (userMessageIds s1) x = map_of ?P x"
    using E1(6) by auto
  have inv1: "\<forall>x\<in>set L. \<forall>m. map_of (userMessageIds s1) x = Some m \<longrightarrow> m \<noteq> [] \<and> fetchMessage c m d1"
  proof (intro ballI allI impI)
    fix x m assume x: "x \<in> set L" and "map_of (userMessageIds s1) x = Some m"
    then have m: "map_of ?P x = Some m" using cards1 by simp
    then have mP: "m \<in> snd ` set ?P" by (force dest: map_of_SomeD)
    have "m \<notin> deletedIds c E1"
    proof
      assume "m \<in> deletedIds c E1"
      with E1(5) obtain y where y: "y \<in> set (map fst ?P) - set L"
        and a: "map_of ?P y = Some m" by blast
      from distinct_snd_inj [OF dv m a] x y show False by simp
    qed
    with ok [OF mP] E1(1) show "m \<noteq> [] \<and> fetchMessage c m d1" by (auto simp: steps_def)
  qed
  from updateLivePoolUsers_Inr [OF up L(2) inv1] obtain E2 where
    E2: "steps c d1 E2 d2" "cardsDeleted E2 = []"
      "cardsCreated E2 = filter (\<lambda>x. map_of (userMessageIds s1) x = None) L"
      "cardsEdited E2 = List.map_filter (\<lambda>x. map_option (Pair x) (map_of (userMessageIds s1) x)) L"
    by blast
  from refreshPoolFooter_events [OF ft] obtain E3 where
    E3: "events d' = events d2 @ E3" "cardsCreated E3 = []" "cardsEdited E3 = []" "cardsDeleted E3 = []"
    by blast
  have ev: "newEvents d d' = E1 @ E2 @ E3"
    using E1(1) E2(1) E3(1) by (simp add: steps_def newEvents_def)
  have c2: "cardsCreated E2 = filter (\<lambda>x. x \<notin> fst ` set ?P) L"
    unfolding E2(3) by (rule filter_cong) (simp_all add: cards1 map_of_eq_None_iff)
  have e2: "cardsEdited E2 = List.map_filter (\<lambda>x. map_option (Pair x) (map_of ?P x)) L"
    unfolding E2(4) by (rule map_filter_cong') (simp add: cards1)
  show ?thesis
    using ev E1(2,3,4) E2(2) c2 e2 E3(2,3,4) map_filter_keys [OF dk, of "set L"] by simp
qed

lemma length_filter_keys:
  assumes "distinct (map fst P)"
  shows "length (filter (\<lambda>xm. fst xm \<notin> L) P) = card (fst ` set P - L)"
proof -
  have "distinct (map fst (filter (\<lambda>xm. fst xm \<notin> L) P))"
    using assms by (rule distinct_map_filter)
  then have "card (set (map fst (filter (\<lambda>xm. fst xm \<notin> L) P)))
             = length (map fst (filter (\<lambda>xm. fst xm \<notin> L) P))"
    by (rule distinct_card)
  moreover have "set (map fst (filter (\<lambda>xm. fst xm \<notin> L) P)) = fst ` set P - L"
    by auto
  ultimately show ?thesis by simp
qed

lemma length_filter_new:
  assumes "distinct L"
  shows "length (filter (\<lambda>x. x \<notin> K) L) = card (set L - K)"
proof -
  have "distinct (filter (\<lambda>x. x \<notin> K) L)" using assms by simp
  then have "card (set (filter (\<lambda>x. x \<notin> K) L)) = length (filter (\<lambda>x. x \<notin> K) L)"
    by (rule distinct_card)
  moreover have "set (filter (\<lambda>x. x \<notin> K) L) = set L - K" by auto
  ultimately show ?thesis by simp
qed

text \<open>
  C1. Take a pass of the VIP tracker or of the Community Pool tracker that runs to its
  end (no send is rejected), from a posted-id map \<open>P\<close> whose message ids are non-empty,
  pairwise different and all still fetchable (for the VIP tracker the clip message ids are
  other ids than the card ids), and a live list \<open>L\<close> with one entry per entity. Then the
  card messages the pass asks to delete are exactly those of the entries of \<open>P\<close> whose
  entity is not in \<open>L\<close>; the cards it creates are exactly those of the entities of \<open>L\<close> that
  have no entry in \<open>P\<close>; and it edits the stored message of every entity of \<open>L\<close> that has
  one. So there are \<open>|keys(P) \ ids(L)|\<close> deletes and \<open>|ids(L) \ keys(P)|\<close> creates.
\<close>

theorem reconcile_card_operations:
  "(cardsPosted c (vipMessageIds vs) d \<and>
    set (map snd (vipMessageIds vs)) \<inter> set (map snd (vipClipMessageIds vs)) = {} \<and>
    distinct (map live_twitchId (mergeLive (liveStreams fd) (getUsersFromDb fd))) \<and>
    reconcileVips c i fd (vs, d) = Inr (vs', d')
    \<longrightarrow>
    cardsDeleted (newEvents d d')
      = filter (\<lambda>xm. fst xm \<notin> live_twitchId ` set (mergeLive (liveStreams fd) (getUsersFromDb fd)))
          (vipMessageIds vs) \<and>
    cardsCreated (newEvents d d')
      = filter (\<lambda>x. x \<notin> fst ` set (vipMessageIds vs))
          (map live_twitchId (mergeLive (liveStreams fd) (getUsersFromDb fd))) \<and>
    cardsEdited (newEvents d d')
      = List.map_filter (\<lambda>x. map_option (Pair x) (map_of (vipMessageIds vs) x))
          (map live_twitchId (mergeLive (liveStreams fd) (getUsersFromDb fd))) \<and>
    length (cardsDeleted (newEvents d d'))
      = card (fst ` set (vipMessageIds vs)
              - live_twitchId ` set (mergeLive (liveStreams fd) (getUsersFromDb fd))) \<and>
    length (cardsCreated (newEvents d d'))
      = card (live_twitchId ` set (mergeLive (liveStreams fd) (getUsersFromDb fd))
              - fst ` set (vipMessageIds vs)))
   \<and>
   (cardsPosted c (userMessageIds ps) e \<and>
    distinct (map live_twitchId liveUsers) \<and>
    reconcilePool c j liveUsers spot (ps, e) = Inr (ps', e')
    \<longrightarrow>
    cardsDeleted (newEvents e e')
      = filter (\<lambda>xm. fst xm \<notin> live_twitchId ` set liveUsers) (userMessageIds ps) \<and>
    cardsCreated (newEvents e e')
      = filter (\<lambda>x. x \<notin> fst ` set (userMessageIds ps)) (map live_twitchId liveUsers) \<and>
    cardsEdited (newEvents e e')
      = List.map_filter (\<lambda>x. map_option (Pair x) (map_of (userMessageIds ps) x))
          (map live_twitchId liveUsers) \<and>
    length (cardsDeleted (newEvents e e'))
      = card (fst ` set (userMessageIds ps) - live_twitchId ` set liveUsers) \<and>
    length (cardsCreated (newEvents e e'))
      = card (live_twitchId ` set liveUsers - fst ` set (userMessageIds ps)))"
proof (intro conjI impI; (elim conjE)?)
  let ?L = "map live_twitchId (mergeLive (liveStreams fd) (getUsersFromDb fd))"
  assume a: "cardsPosted c (vipMessageIds vs) d"
    "set (map snd (vipMessageIds vs)) \<inter> set (map snd (vipClipMessageIds vs)) = {}"
    "distinct ?L" "reconcileVips c i fd (vs, d) = Inr (vs', d')"
  note r = reconcileVips_cards [OF a(1,2) refl a(3,4)]
  have dk: "distinct (map fst (vipMessageIds vs))" using a(1) by (simp add: cardsPosted_def)
  show "cardsDeleted (newEvents d d')
      = filter (\<lambda>xm. fst xm \<notin> live_twitchId ` set (mergeLive (liveStreams fd) (getUsersFromDb fd)))
          (vipMessageIds vs)"
    using r by simp
  show "cardsCreated (newEvents d d') = filter (\<lambda>x. x \<notin> fst ` set (vipMessageIds vs)) ?L"
    using r by simp
  show "cardsEdited (newEvents d d')
      = List.map_filter (\<lambda>x. map_option (Pair x) (map_of (vipMessageIds vs) x)) ?L"
    using r by simp
  show "length (cardsDeleted (newEvents d d'))
      = card (fst ` set (vipMessageIds vs)
              - live_twitchId ` set (mergeLive (liveStreams fd) (getUsersFromDb fd)))"
    using r length_filter_keys [OF dk, of "set ?L"] by simp
  show "length (cardsCreated (newEvents d d'))
      = card (live_twitchId ` set (mergeLive (liveStreams fd) (getUsersFromDb fd))
              - fst ` set (vipMessageIds vs))"
    using r length_filter_new [OF a(3), of "fst ` set (vipMessageIds vs)"] by simp
next
  let ?L = "map live_twitchId liveUsers"
  assume a: "cardsPosted c (userMessageIds ps) e" "distinct ?L"
    "reconcilePool c j liveUsers spot (ps, e) = Inr (ps', e')"
  note r = reconcilePool_cards [OF a(1) refl a(2,3)]
  have dk: "distinct (map fst (userMessageIds ps))" using a(1) by (simp add: cardsPosted_def)
  show "cardsDeleted (newEvents e e')
      = filter (\<lambda>xm. fst xm \<notin> live_twitchId ` set liveUsers) (userMessageIds ps)"
    using r by simp
  show "cardsCreated (newEvents e e')
      = filter (\<lambda>x. x \<notin> fst ` set (userMessageIds ps)) ?L"
    using r by simp
  show "cardsEdited (newEvents e e')
      = List.map_filter (\<lambda>x. map_option (Pair x) (map_of (userMessageIds ps) x)) ?L"
    using r by simp
  show "length (cardsDeleted (newEvents e e'))
      = card (fst ` set (userMessageIds ps) - live_twitchId ` set liveUsers)"
    using r length_filter_keys [OF dk, of "set ?L"] by simp
  show "length (cardsCreated (newEvents e e'))
      = card (live_twitchId ` set liveUsers - fst ` set (userMessageIds ps))"
    using r length_filter_new [OF a(2), of "fst ` set (userMessageIds ps)"] by simp
qed

lemmas surface_defs = send_def fetchMessage_def deleteMessage_def editMessage_def lastMessage_def
  newEvents_def

lemmas sample_defs = sampleFeed_def sampleDiscord_def sampleVipStore_def samplePoolStore_def

lemma sampleLive:
  "mergeLive (liveStreams sampleFeed) (getUsersFromDb sampleFeed) =
     [\<lparr>live_twitchId = ''c'', live_displayName = ''C'', started_at = 20\<rparr>,
      \<lparr>live_twitchId = ''b'', live_displayName = ''B'', started_at = 10\<rparr>]"
  by (simp add: mergeLive_def liveStreamMap_def getUsersFromDb_def sampleFeed_def
        List.map_filter_simps)

lemma sampleVipRun:
  "\<exists>vs' d'. reconcileVips ''ch'' False sampleFeed (sampleVipStore, sampleDiscord) = Inr (vs', d')
     \<and> newEvents sampleDiscord d' = [DeleteRequested ''ch'' (CardSlot ''a'') ''m1'',
   Sent ''ch'' (VipEmbed ''c'') ''n1'',
   Edited ''ch'' ''m2'' (VipEmbed ''b''),
   Sent ''ch'' (ClipGifMessage ''b'') ''n2'',
   DeleteRequested ''ch'' (ClipSlot ''b'') ''k0'',
   DeleteRequested ''ch'' FooterSlot ''f'',
   Sent ''ch'' (FooterEmbed 2) ''n3'']"
  unfolding reconcileVips_def sampleLive
  by (simp add: sample_defs surface_defs cleanupOfflineVip_def updateVipCard_def
        replaceVipClip_def refreshVipFooter_def Let_def)


lemma samplePoolLive:
  "sortedLiveUsers (liveStreams sampleFeed) (getUsersFromDb sampleFeed) =
     [\<lparr>live_twitchId = ''b'', live_displayName = ''B'', started_at = 10\<rparr>,
      \<lparr>live_twitchId = ''c'', live_displayName = ''C'', started_at = 20\<rparr>]"
  by (simp add: sortedLiveUsers_def sortByStart_def sampleLive)

theorem reconcile_card_operations_witness:
  "(case reconcileVips ''ch'' False sampleFeed (sampleVipStore, sampleDiscord) of
      Inl sd \<Rightarrow> False
    | Inr sd \<Rightarrow>
        cardsDeleted (newEvents sampleDiscord (snd sd)) = [(''a'', ''m1'')] \<and>
        cardsCreated (newEvents sampleDiscord (snd sd)) = [''c''] \<and>
        cardsEdited (newEvents sampleDiscord (snd sd)) = [(''b'', ''m2'')]) \<and>
   (case reconcilePool ''ch'' False
           (sortedLiveUsers (liveStreams sampleFeed) (getUsersFromDb sampleFeed)) (Some ''b'')
           (samplePoolStore, sampleDiscord) of
      Inl sd \<Rightarrow> False
    | Inr sd \<Rightarrow>
        cardsDeleted (newEvents sampleDiscord (snd sd)) = [(''a'', ''m1'')] \<and>
        cardsCreated (newEvents sampleDiscord (snd sd)) = [''c''] \<and>
        cardsEdited (newEvents sampleDiscord (snd sd)) = [(''b'', ''m2'')])"
proof -
  obtain vs' d' where
    rv: "reconcileVips ''ch'' False sampleFeed (sampleVipStore, sampleDiscord) = Inr (vs', d')"
    unfolding reconcileVips_def sampleLive
    by (simp add: sample_defs surface_defs cleanupOfflineVip_def updateVipCard_def
          replaceVipClip_def refreshVipFooter_def Let_def)
  obtain ps' e' where
    rp: "reconcilePool ''ch'' False
           (sortedLiveUsers (liveStreams sampleFeed) (getUsersFromDb sampleFeed)) (Some ''b'')
           (samplePoolStore, sampleDiscord) = Inr (ps', e')"
    unfolding reconcilePool_def samplePoolLive
    by (simp add: sample_defs surface_defs cleanupOfflinePoolUser_def updatePoolCard_def
          refreshPoolFooter_def Let_def)
  have hv: "cardsPosted ''ch'' (vipMessageIds sampleVipStore) sampleDiscord"
    "set (map snd (vipMessageIds sampleVipStore)) \<inter> set (map snd (vipClipMessageIds sampleVipStore)) = {}"
    by (simp_all add: cardsPosted_def sample_defs fetchMessage_def)
  have lv: "distinct (map live_twitchId (mergeLive (liveStreams sampleFeed) (getUsersFromDb sampleFeed)))"
    by (simp add: sampleLive)
  have hp: "cardsPosted ''ch'' (userMessageIds samplePoolStore) sampleDiscord"
    by (simp add: cardsPosted_def sample_defs fetchMessage_def)
  have lp: "distinct (map live_twitchId (sortedLiveUsers (liveStreams sampleFeed) (getUsersFromDb sampleFeed)))"
    by (simp add: samplePoolLive)
  from reconcile_card_operations
    [of "''ch''" sampleVipStore sampleDiscord sampleFeed False vs' d' samplePoolStore sampleDiscord
        "sortedLiveUsers (liveStreams sampleFeed) (getUsersFromDb sampleFeed)" False "Some ''b''" ps' e']
    hv lv hp lp rv rp
  show ?thesis
    by (simp add: sampleLive samplePoolLive sampleVipStore_def samplePoolStore_def
          List.map_filter_simps)
qed

section \<open>Properties of the clip replacement\<close>

lemma noClip_refl: "noClipRequests d d"
  by (simp add: noClipRequests_def)

lemma noClip_trans: "noClipRequests d d1 \<Longrightarrow> noClipRequests d1 d2 \<Longrightarrow> noClipRequests d d2"
  by (auto simp: noClipRequests_def)

lemma noClip_edit: "noClipRequests d (editMessage c m p d)"
  by (simp add: noClipRequests_def editMessage_def)

lemma noClip_delete_card: "noClipRequests d (deleteMessage c (CardSlot x) m d)"
  and noClip_delete_footer: "noClipRequests d (deleteMessage c FooterSlot m d)"
  by (simp_all add: noClipRequests_def deleteMessage_def)

lemma noClip_send: "\<forall>x. p \<noteq> ClipGifMessage x \<Longrightarrow> noClipRequests d (snd (send c p d))"
  by (cases p) (auto simp: noClipRequests_def send_def split: list.splits option.splits)

lemma noClip_send': "\<forall>x. p \<noteq> ClipGifMessage x \<Longrightarrow> send c p d = (r, d') \<Longrightarrow> noClipRequests d d'"
  using noClip_send [of p d c] by simp

lemma noClip_editIfFound: "noClipRequests d (editIfFound c m p d)"
  by (simp add: editIfFound_def noClip_refl noClip_edit)

lemma noClip_cleanupPool:
  "noClipRequests d (snd (fold (cleanupOfflinePoolUser c live) ks (s, d)))"
proof (induction ks arbitrary: s d)
  case Nil
  then show ?case by (simp add: noClip_refl)
next
  case (Cons x ks)
  obtain s1 d1 where f: "cleanupOfflinePoolUser c live x (s, d) = (s1, d1)"
    by (cases "cleanupOfflinePoolUser c live x (s, d)")
  then have "noClipRequests d d1"
    by (auto simp: cleanupOfflinePoolUser_def noClip_refl noClip_delete_card
             split: if_splits option.splits)
  with Cons [where s = s1 and d = d1] f show ?case by (auto intro: noClip_trans)
qed

lemma noClip_updatePoolCard:
  "updatePoolCard c spot x (s, d) = r \<Longrightarrow>
   noClipRequests d (snd (case r of Inl sd \<Rightarrow> sd | Inr sd \<Rightarrow> sd))"
  by (auto simp: updatePoolCard_def Let_def noClip_edit
           split: if_splits prod.splits option.splits
           intro: noClip_send' [where p = "SpotlightEmbed x (spot = Some x)"])

lemma noClip_updateLivePoolUsers:
  "noClipRequests d (snd (case updateLivePoolUsers c spot L (s, d) of Inl sd \<Rightarrow> sd | Inr sd \<Rightarrow> sd))"
proof (induction L arbitrary: s d)
  case Nil
  then show ?case by (simp add: noClip_refl)
next
  case (Cons x L)
  show ?case
  proof (cases "updatePoolCard c spot x (s, d)")
    case (Inl sd)
    with noClip_updatePoolCard [OF Inl] show ?thesis by simp
  next
    case (Inr sd)
    obtain s1 d1 where sd: "sd = (s1, d1)" by (cases sd)
    from noClip_updatePoolCard [OF Inr] sd have "noClipRequests d d1" by simp
    with Cons [where s = s1 and d = d1] Inr sd show ?thesis by (auto intro: noClip_trans)
  qed
qed

lemma noClip_refreshPoolFooter:
  "noClipRequests d (snd (case refreshPoolFooter c i n (s, d) of Inl sd \<Rightarrow> sd | Inr sd \<Rightarrow> sd))"
proof -
  have a: "\<And>d0 r d'. send c (FooterEmbed n) d0 = (r, d') \<Longrightarrow> noClipRequests d0 d'"
    by (rule noClip_send' [where p = "FooterEmbed n"]) simp_all
  show ?thesis
    by (auto simp: refreshPoolFooter_def noClip_edit noClip_refl
             split: if_splits prod.splits option.splits
             intro: a noClip_trans [OF noClip_delete_footer a])
qed

lemma noClip_reconcilePool:
  "noClipRequests d (snd (case reconcilePool c i liveUsers spot (s, d) of Inl sd \<Rightarrow> sd | Inr sd \<Rightarrow> sd))"
proof -
  let ?L = "map live_twitchId liveUsers"
  obtain s1 d1 where cl: "fold (cleanupOfflinePoolUser c (set ?L)) (map fst (userMessageIds s)) (s, d) = (s1, d1)"
    by (cases "fold (cleanupOfflinePoolUser c (set ?L)) (map fst (userMessageIds s)) (s, d)")
  have n1: "noClipRequests d d1" using noClip_cleanupPool [where d = d and c = c and live = "set ?L" and ks = "map fst (userMessageIds s)" and s = s] cl by simp
  show ?thesis
  proof (cases "updateLivePoolUsers c spot ?L (s1, d1)")
    case (Inl sd)
    with noClip_updateLivePoolUsers [where d = d1 and c = c and spot = spot and L = ?L and s = s1] n1 cl show ?thesis
      by (auto simp: reconcilePool_def Let_def intro: noClip_trans)
  next
    case (Inr sd)
    obtain s2 d2 where sd: "sd = (s2, d2)" by (cases sd)
    from noClip_updateLivePoolUsers [where d = d1 and c = c and spot = spot and L = ?L and s = s1] Inr sd have n2: "noClipRequests d1 d2" by simp
    from noClip_refreshPoolFooter [where d = d2 and c = c and i = i and n = "length liveUsers" and s = s2] n1 n2 cl Inr sd show ?thesis
      by (auto simp: reconcilePool_def Let_def intro: noClip_trans)
  qed
qed


lemma replaceSpotlightClip_events:
  assumes "replaceSpotlightClip c old clips h d = (r, d')"
  shows "\<exists>S. events d' = events d
              @ (if truthy old then [DeleteRequested c HighlightClipSlot (the old)] else []) @ S \<and>
           list_all (\<lambda>e. \<not> isClipDelete e) S \<and> length (filter isClipSend S) \<le> 1"
proof -
  let ?D = "if truthy old then [DeleteRequested c HighlightClipSlot (the old)] else []"
  let ?d1 = "if truthy old then deleteMessage c HighlightClipSlot (the old) d else d"
  have d1: "events ?d1 = events d @ ?D" by (simp add: deleteMessage_def)
  show ?thesis
  proof (cases "\<exists>x. h = Some x \<and> clips x")
    case False
    with assms have "d' = ?d1"
      by (auto simp: replaceSpotlightClip_def Let_def split: option.splits if_splits)
    with d1 show ?thesis by (intro exI[of _ "[]"]) simp
  next
    case True
    then obtain x where x: "h = Some x" "clips x" by blast
    with assms have s: "send c (ClipGifMessage x) ?d1 = (r, d')"
      by (simp add: replaceSpotlightClip_def Let_def)
    from send_events [OF s] d1 show ?thesis
      by (intro exI[of _ "[case r of None \<Rightarrow> SendRejected c (ClipGifMessage x)
                                   | Some m \<Rightarrow> Sent c (ClipGifMessage x) m]"])
         (auto split: option.splits)
  qed
qed

lemma clipDeletesFirst_parts:
  assumes "list_all (\<lambda>e. \<not> isClipSend e) D" "list_all (\<lambda>e. \<not> isClipDelete e) R"
  shows "clipDeletesFirst (D @ R)"
proof -
  have "dropWhile (\<lambda>e. \<not> isClipSend e) (D @ R) = dropWhile (\<lambda>e. \<not> isClipSend e) R"
    using assms(1) by (induction D) auto
  moreover have "set (dropWhile (\<lambda>e. \<not> isClipSend e) R) \<subseteq> set R"
    by (rule set_dropWhileD [THEN subsetI]) 
  ultimately show ?thesis using assms(2)
    by (auto simp: clipDeletesFirst_def list_all_iff)
qed

lemma clip_order_of_parts:
  assumes ev: "events d1 = events d @ (if truthy old then [DeleteRequested c HighlightClipSlot (the old)] else []) @ S"
    and S: "list_all (\<lambda>e. \<not> isClipDelete e) S" "length (filter isClipSend S) \<le> 1"
    and q: "noClipRequests d1 d'"
  shows "clipDeletesFirst (newEvents d d') \<and> length (filter isClipSend (newEvents d d')) \<le> 1 \<and>
         (truthy old \<longrightarrow> take 1 (newEvents d d') = [DeleteRequested c HighlightClipSlot (the old)])"
proof -
  from q obtain E where E: "events d' = events d1 @ E"
    "list_all (\<lambda>e. \<not> isClipSend e \<and> \<not> isClipDelete e) E"
    by (auto simp: noClipRequests_def)
  let ?D = "if truthy old then [DeleteRequested c HighlightClipSlot (the old)] else []"
  have n: "newEvents d d' = ?D @ (S @ E)" using ev E(1) by (simp add: newEvents_def)
  have "list_all (\<lambda>e. \<not> isClipSend e) ?D" by simp
  moreover have "list_all (\<lambda>e. \<not> isClipDelete e) (S @ E)"
    using S(1) E(2) by (auto simp: list_all_iff)
  ultimately have "clipDeletesFirst (?D @ (S @ E))" by (rule clipDeletesFirst_parts)
  moreover have "filter isClipSend E = []" using E(2) by (auto simp: list_all_iff filter_empty_conv)
  ultimately show ?thesis using n S(2) by simp
qed

lemma noClip_empty: "newEvents d d = []"
  by (simp add: newEvents_def)

lemma checkRaidPile_discord:
  "discord (snd (checkRaidPile g fd w)) = discord w \<and> fst (checkRaidPile g fd w) \<noteq> Completed \<or>
   (\<exists>config h r d1. configDocs w g = Some config \<and> truthy (rcfg_channelId config) \<and>
      replaceSpotlightClip (the (rcfg_channelId config)) (rcfg_clipId config) (clipFor fd) h (discord w) = (r, d1) \<and>
      noClipRequests d1 (discord (snd (checkRaidPile g fd w))))"
proof (cases "configDocs w g")
  case None
  then show ?thesis by (simp add: checkRaidPile_def loadRaidPileChannelConfig_def)
next
  case (Some config)
  show ?thesis
  proof (cases "truthy (rcfg_channelId config) \<and> channels (discord w) (the (rcfg_channelId config)) \<noteq> None")
    case False
    with Some show ?thesis
      by (auto simp: checkRaidPile_def loadRaidPileChannelConfig_def Let_def)
  next
    case True
    let ?c = "the (rcfg_channelId config)"
    let ?L = "sortedLiveUsers (liveStreams fd) (getUsersFromDb fd)"
    let ?h = "case ?L of [] \<Rightarrow> None | u # _ \<Rightarrow> Some (live_twitchId u)"
    obtain r d1 where rp: "replaceSpotlightClip ?c (rcfg_clipId config) (clipFor fd) ?h (discord w) = (r, d1)"
      by (cases "replaceSpotlightClip ?c (rcfg_clipId config) (clipFor fd) ?h (discord w)")
    have e4: "\<And>a b c' e p q r' s. noClipRequests d1
        (editIfFound ?c a p (editIfFound ?c b q (editIfFound ?c c' r' (editIfFound ?c e s d1))))"
      by (blast intro: noClip_trans noClip_editIfFound)
    have "noClipRequests d1 (discord (snd (checkRaidPile g fd w)))"
      using Some True rp e4
      by (auto simp: checkRaidPile_def loadRaidPileChannelConfig_def Let_def setRaidPileChannel_def)
    with Some True rp show ?thesis by blast
  qed
qed

lemma noClip_reconcilePool_Inl:
  "reconcilePool c i L h (s, d) = Inl (s', d') \<Longrightarrow> noClipRequests d d'"
  using noClip_reconcilePool [where d = d and c = c and i = i and liveUsers = L and spot = h and s = s]
  by simp

lemma noClip_reconcilePool_Inr:
  "reconcilePool c i L h (s, d) = Inr (s', d') \<Longrightarrow> noClipRequests d d'"
  using noClip_reconcilePool [where d = d and c = c and i = i and liveUsers = L and spot = h and s = s]
  by simp

lemma checkCommunityPool_discord:
  "discord (snd (checkCommunityPool g i fd w)) = discord w \<and>
     fst (checkCommunityPool g i fd w) \<notin> {Completed, Aborted} \<or>
   (\<exists>config h r d1. configDocs w g = Some config \<and> truthy (pcfg_channelId config) \<and>
      replaceSpotlightClip (the (pcfg_channelId config)) (spotlightClipId config) (clipFor fd) h (discord w) = (r, d1) \<and>
      noClipRequests d1 (discord (snd (checkCommunityPool g i fd w))))"
proof (cases "configDocs w g")
  case None
  then show ?thesis by (simp add: checkCommunityPool_def loadCommunityPoolChannelConfig_def)
next
  case (Some config)
  show ?thesis
  proof (cases "truthy (pcfg_channelId config) \<and> channels (discord w) (the (pcfg_channelId config)) \<noteq> None")
    case False
    with Some show ?thesis
      by (auto simp: checkCommunityPool_def loadCommunityPoolChannelConfig_def Let_def)
  next
    case True
    let ?c = "the (pcfg_channelId config)"
    let ?L = "sortedLiveUsers (liveStreams fd) (getUsersFromDb fd)"
    let ?h = "map_option live_twitchId (snd (nextSpotlight (spotlightIndex w) ?L))"
    obtain r d1 where rp: "replaceSpotlightClip ?c (spotlightClipId config) (clipFor fd) ?h (discord w) = (r, d1)"
      by (cases "replaceSpotlightClip ?c (spotlightClipId config) (clipFor fd) ?h (discord w)")
    from True obtain ms where ch: "channels (discord w) ?c = Some ms" by blast
    have "noClipRequests d1 (discord (snd (checkCommunityPool g i fd w)))"
      using Some True ch rp
      by (cases i)
         (auto simp: checkCommunityPool_def loadCommunityPoolChannelConfig_def Let_def
            putPool_def persistPool_def split: sum.splits
            intro: noClip_reconcilePool_Inl noClip_reconcilePool_Inr)
    with Some True rp show ?thesis by blast
  qed
qed


text \<open>
  C6, as the code has it. In every pass of the Raid Pile tracker and of the Community Pool
  tracker no request to delete a clip message follows the sending of a clip message, at
  most one clip message is sent, and when the configuration stores a clip message id the
  request to delete that message is the first request of the pass. In the VIP tracker the
  order is the other one, as its comment says: for a live VIP whose clip could be built and
  sent, the new clip message is sent first and the stored one is deleted after it.
\<close>

theorem clip_replacement_order:
  "(clipDeletesFirst (newEvents (discord rw) (discord (snd (checkRaidPile g fd rw)))) \<and>
    length (filter isClipSend (newEvents (discord rw) (discord (snd (checkRaidPile g fd rw))))) \<le> 1 \<and>
    (\<forall>config old. fst (checkRaidPile g fd rw) = Completed \<and> configDocs rw g = Some config \<and>
        rcfg_clipId config = Some old \<and> old \<noteq> [] \<longrightarrow>
        take 1 (newEvents (discord rw) (discord (snd (checkRaidPile g fd rw))))
          = [DeleteRequested (the (rcfg_channelId config)) HighlightClipSlot old]))
   \<and>
   (clipDeletesFirst (newEvents (discord cw) (discord (snd (checkCommunityPool g' i fd' cw)))) \<and>
    length (filter isClipSend (newEvents (discord cw) (discord (snd (checkCommunityPool g' i fd' cw))))) \<le> 1 \<and>
    (\<forall>config old. fst (checkCommunityPool g' i fd' cw) \<in> {Completed, Aborted} \<and>
        configDocs cw g' = Some config \<and> spotlightClipId config = Some old \<and> old \<noteq> [] \<longrightarrow>
        take 1 (newEvents (discord cw) (discord (snd (checkCommunityPool g' i fd' cw))))
          = [DeleteRequested (the (pcfg_channelId config)) HighlightClipSlot old]))
   \<and>
   (clips x \<and> map_of (vipClipMessageIds vs) x = Some old' \<and> old' \<noteq> [] \<and>
    send c (ClipGifMessage x) d = (Some n, d1)
    \<longrightarrow>
    newEvents d (snd (replaceVipClip c clips x (vs, d)))
      = [Sent c (ClipGifMessage x) n, DeleteRequested c (ClipSlot x) old'])"
proof (intro conjI)
  let ?E = "newEvents (discord rw) (discord (snd (checkRaidPile g fd rw)))"
  have "clipDeletesFirst ?E \<and> length (filter isClipSend ?E) \<le> 1 \<and>
        (\<forall>config old. fst (checkRaidPile g fd rw) = Completed \<and> configDocs rw g = Some config \<and>
           rcfg_clipId config = Some old \<and> old \<noteq> [] \<longrightarrow>
           take 1 ?E = [DeleteRequested (the (rcfg_channelId config)) HighlightClipSlot old])"
    using checkRaidPile_discord [of g fd rw]
  proof
    assume "discord (snd (checkRaidPile g fd rw)) = discord rw \<and> fst (checkRaidPile g fd rw) \<noteq> Completed"
    then show ?thesis by (simp add: newEvents_def clipDeletesFirst_def)
  next
    assume "\<exists>config h r d1. configDocs rw g = Some config \<and> truthy (rcfg_channelId config) \<and>
      replaceSpotlightClip (the (rcfg_channelId config)) (rcfg_clipId config) (clipFor fd) h (discord rw) = (r, d1) \<and>
      noClipRequests d1 (discord (snd (checkRaidPile g fd rw)))"
    then obtain config h r d1 where
      c: "configDocs rw g = Some config"
      and rp: "replaceSpotlightClip (the (rcfg_channelId config)) (rcfg_clipId config) (clipFor fd) h (discord rw) = (r, d1)"
      and q: "noClipRequests d1 (discord (snd (checkRaidPile g fd rw)))"
      by blast
    from replaceSpotlightClip_events [OF rp] obtain S where
      S: "events d1 = events (discord rw)
            @ (if truthy (rcfg_clipId config)
               then [DeleteRequested (the (rcfg_channelId config)) HighlightClipSlot (the (rcfg_clipId config))]
               else []) @ S"
        "list_all (\<lambda>e. \<not> isClipDelete e) S" "length (filter isClipSend S) \<le> 1"
      by blast
    from clip_order_of_parts [OF S q] c show ?thesis by auto
  qed
  then show "clipDeletesFirst ?E" "length (filter isClipSend ?E) \<le> 1"
    "\<forall>config old. fst (checkRaidPile g fd rw) = Completed \<and> configDocs rw g = Some config \<and>
        rcfg_clipId config = Some old \<and> old \<noteq> [] \<longrightarrow>
        take 1 ?E = [DeleteRequested (the (rcfg_channelId config)) HighlightClipSlot old]"
    by blast+
next
  let ?E = "newEvents (discord cw) (discord (snd (checkCommunityPool g' i fd' cw)))"
  have "clipDeletesFirst ?E \<and> length (filter isClipSend ?E) \<le> 1 \<and>
        (\<forall>config old. fst (checkCommunityPool g' i fd' cw) \<in> {Completed, Aborted} \<and>
           configDocs cw g' = Some config \<and> spotlightClipId config = Some old \<and> old \<noteq> [] \<longrightarrow>
           take 1 ?E = [DeleteRequested (the (pcfg_channelId config)) HighlightClipSlot old])"
    using checkCommunityPool_discord [of g' i fd' cw]
  proof
    assume "discord (snd (checkCommunityPool g' i fd' cw)) = discord cw \<and>
      fst (checkCommunityPool g' i fd' cw) \<notin> {Completed, Aborted}"
    then show ?thesis by (simp add: newEvents_def clipDeletesFirst_def)
  next
    assume "\<exists>config h r d1. configDocs cw g' = Some config \<and> truthy (pcfg_channelId config) \<and>
      replaceSpotlightClip (the (pcfg_channelId config)) (spotlightClipId config) (clipFor fd') h (discord cw) = (r, d1) \<and>
      noClipRequests d1 (discord (snd (checkCommunityPool g' i fd' cw)))"
    then obtain config h r d1 where
      c: "configDocs cw g' = Some config"
      and rp: "replaceSpotlightClip (the (pcfg_channelId config)) (spotlightClipId config) (clipFor fd') h (discord cw) = (r, d1)"
      and q: "noClipRequests d1 (discord (snd (checkCommunityPool g' i fd' cw)))"
      by blast
    from replaceSpotlightClip_events [OF rp] obtain S where
      S: "events d1 = events (discord cw)
            @ (if truthy (spotlightClipId config)
               then [DeleteRequested (the (pcfg_channelId config)) HighlightClipSlot (the (spotlightClipId config))]
               else []) @ S"
        "list_all (\<lambda>e. \<not> isClipDelete e) S" "length (filter isClipSend S) \<le> 1"
      by blast
    from clip_order_of_parts [OF S q] c show ?thesis by auto
  qed
  then show "clipDeletesFirst ?E" "length (filter isClipSend ?E) \<le> 1"
    "\<forall>config old. fst (checkCommunityPool g' i fd' cw) \<in> {Completed, Aborted} \<and>
        configDocs cw g' = Some config \<and> spotlightClipId config = Some old \<and> old \<noteq> [] \<longrightarrow>
        take 1 ?E = [DeleteRequested (the (pcfg_channelId config)) HighlightClipSlot old]"
    by blast+
next
  show "clips x \<and> map_of (vipClipMessageIds vs) x = Some old' \<and> old' \<noteq> [] \<and>
    send c (ClipGifMessage x) d = (Some n, d1)
    \<longrightarrow>
    newEvents d (snd (replaceVipClip c clips x (vs, d)))
      = [Sent c (ClipGifMessage x) n, DeleteRequested c (ClipSlot x) old']"
  proof (intro impI, elim conjE)
    assume a: "clips x" "map_of (vipClipMessageIds vs) x = Some old'" "old' \<noteq> []"
      "send c (ClipGifMessage x) d = (Some n, d1)"
    from send_events [OF a(4)] a(1,2,3,4) show
      "newEvents d (snd (replaceVipClip c clips x (vs, d)))
         = [Sent c (ClipGifMessage x) n, DeleteRequested c (ClipSlot x) old']"
      by (simp add: replaceVipClip_def Let_def newEvents_def deleteMessage_def)
  qed
qed

lemmas vip_defs = checkVips_def loadVipChannelConfig_def reconcileVips_def setVipLiveChannel_def
  putVip_def clearAllVips_def cleanupOfflineVip_def updateVipCard_def replaceVipClip_def
  refreshVipFooter_def orEmpty_def orStored_def mergeMapField_def emptyVipStore_def

lemmas pool_defs = checkCommunityPool_def loadCommunityPoolChannelConfig_def reconcilePool_def
  setCommunityPoolChannel_def putPool_def persistPool_def cleanupOfflinePoolUser_def
  updatePoolCard_def refreshPoolFooter_def nextSpotlight_def replaceSpotlightClip_def
  orEmpty_def orStored_def mergeMapField_def emptyPoolStore_def

lemmas pile_defs = checkRaidPile_def loadRaidPileChannelConfig_def setRaidPileChannel_def
  editIfFound_def replaceSpotlightClip_def emptyPileStore_def

lemma sampleVipPass:
  "fst (checkVips ''g1'' False sampleFeed sampleVipWorld) = Completed \<and>
   newEvents (discord sampleVipWorld) (discord (snd (checkVips ''g1'' False sampleFeed sampleVipWorld)))
     = [DeleteRequested ''ch'' (CardSlot ''a'') ''m1'',
        Sent ''ch'' (VipEmbed ''c'') ''n1'',
        Edited ''ch'' ''m2'' (VipEmbed ''b''),
        Sent ''ch'' (ClipGifMessage ''b'') ''n2'',
        DeleteRequested ''ch'' (ClipSlot ''b'') ''k0'',
        DeleteRequested ''ch'' FooterSlot ''f'',
        Sent ''ch'' (FooterEmbed 2) ''n3'']"
  unfolding checkVips_def reconcileVips_def sampleLive
  by (simp add: vip_defs sampleVipWorld_def sampleDiscord_def sampleFeed_def surface_defs Let_def)

theorem clip_replacement_order_counterexample:
  "\<not> clipDeletesFirst
       (newEvents (discord sampleVipWorld)
          (discord (snd (checkVips ''g1'' False sampleFeed sampleVipWorld))))"
  by (simp add: sampleVipPass clipDeletesFirst_def)


lemma samplePilePass:
  "fst (checkRaidPile ''g1'' sampleFeed samplePileWorld) = Completed \<and>
   newEvents (discord samplePileWorld) (discord (snd (checkRaidPile ''g1'' sampleFeed samplePileWorld)))
     = [DeleteRequested ''ch'' HighlightClipSlot ''k0'',
        Sent ''ch'' (ClipGifMessage ''b'') ''n1'',
        Edited ''ch'' ''m1'' (HolderEmbed (Some ''b'')),
        Edited ''ch'' ''m2'' LeaderboardMessage,
        Edited ''ch'' ''f'' (FooterEmbed 2)]"
  unfolding checkRaidPile_def samplePoolLive
  by (simp add: pile_defs samplePileWorld_def sampleDiscord_def sampleFeed_def surface_defs Let_def)

lemma samplePoolPass:
  "fst (checkCommunityPool ''g1'' False sampleFeed samplePoolWorld) = Completed \<and>
   newEvents (discord samplePoolWorld)
       (discord (snd (checkCommunityPool ''g1'' False sampleFeed samplePoolWorld)))
     = [DeleteRequested ''ch'' HighlightClipSlot ''k0'',
        DeleteRequested ''ch'' (CardSlot ''a'') ''m1'',
        Edited ''ch'' ''m2'' (SpotlightEmbed ''b'' False),
        Sent ''ch'' (SpotlightEmbed ''c'' True) ''n1'',
        DeleteRequested ''ch'' FooterSlot ''f'',
        Sent ''ch'' (FooterEmbed 2) ''n2''] \<and>
   spotlightIndex (snd (checkCommunityPool ''g1'' False sampleFeed samplePoolWorld)) = 1"
  unfolding checkCommunityPool_def reconcilePool_def samplePoolLive
  by (simp add: pool_defs samplePoolWorld_def sampleDiscord_def sampleFeed_def surface_defs Let_def)

theorem clip_replacement_order_witness:
  "take 1 (newEvents (discord samplePileWorld)
             (discord (snd (checkRaidPile ''g1'' sampleFeed samplePileWorld))))
     = [DeleteRequested ''ch'' HighlightClipSlot ''k0''] \<and>
   take 1 (newEvents (discord samplePoolWorld)
             (discord (snd (checkCommunityPool ''g1'' False sampleFeed samplePoolWorld))))
     = [DeleteRequested ''ch'' HighlightClipSlot ''k0''] \<and>
   newEvents sampleDiscord
       (snd (replaceVipClip ''ch'' (clipFor sampleFeed) ''b'' (sampleVipStore, sampleDiscord)))
     = [Sent ''ch'' (ClipGifMessage ''b'') ''n1'', DeleteRequested ''ch'' (ClipSlot ''b'') ''k0'']"
proof -
  have s: "send ''ch'' (ClipGifMessage ''b'') sampleDiscord
             = (Some ''n1'', snd (send ''ch'' (ClipGifMessage ''b'') sampleDiscord))"
    by (simp add: send_def sampleDiscord_def)
  have h: "clipFor sampleFeed ''b''" "map_of (vipClipMessageIds sampleVipStore) ''b'' = Some ''k0''"
    "configDocs samplePileWorld ''g1'' \<noteq> None"
    "rcfg_clipId (the (configDocs samplePileWorld ''g1'')) = Some ''k0''"
    "rcfg_channelId (the (configDocs samplePileWorld ''g1'')) = Some ''ch''"
    "configDocs samplePoolWorld ''g1'' \<noteq> None"
    "spotlightClipId (the (configDocs samplePoolWorld ''g1'')) = Some ''k0''"
    "pcfg_channelId (the (configDocs samplePoolWorld ''g1'')) = Some ''ch''"
    by (simp_all add: sampleFeed_def sampleVipStore_def samplePileWorld_def samplePoolWorld_def)
  from clip_replacement_order
    [where rw = samplePileWorld and g = "''g1''" and fd = sampleFeed
       and cw = samplePoolWorld and g' = "''g1''" and i = False and fd' = sampleFeed
       and clips = "clipFor sampleFeed" and x = "''b''" and vs = sampleVipStore and old' = "''k0''"
       and c = "''ch''" and d = sampleDiscord and n = "''n1''"
       and ?d1.0 = "snd (send ''ch'' (ClipGifMessage ''b'') sampleDiscord)"]
    s h samplePilePass samplePoolPass
  show ?thesis by auto
qed

section \<open>Properties of a pass with nobody live\<close>

lemma fold_deleteMessage:
  "events (fold (\<lambda>(sl, m). deleteMessage c sl m) reqs d) = events d @ deleteRequests c reqs \<and>
   channels (fold (\<lambda>(sl, m). deleteMessage c sl m) reqs d) c
     = map_option (filter (\<lambda>y. y \<notin> snd ` set reqs)) (channels d c) \<and>
   replies (fold (\<lambda>(sl, m). deleteMessage c sl m) reqs d) = replies d"
proof (induction reqs arbitrary: d)
  case Nil
  then show ?case by (cases "channels d c") (simp_all add: deleteRequests_def)
next
  case (Cons a reqs)
  obtain sl m where a: "a = (sl, m)" by (cases a)
  have f: "\<And>ms. filter (\<lambda>y. y \<notin> snd ` set reqs) (removeAll m ms)
               = filter (\<lambda>y. y \<noteq> m \<and> y \<notin> snd ` set reqs) ms"
    by (simp add: removeAll_filter_not_eq conj_commute eq_commute)
  show ?case
    using Cons [of "deleteMessage c sl m d"] a f
    by (cases "channels d c") (auto simp: deleteRequests_def deleteMessage_def)
qed

lemma offlineRequests_cong:
  assumes "\<And>y. y \<in> set ks \<Longrightarrow> map_of (vipMessageIds s1) y = map_of (vipMessageIds s2) y"
    and "\<And>y. y \<in> set ks \<Longrightarrow> map_of (vipClipMessageIds s1) y = map_of (vipClipMessageIds s2) y"
  shows "offlineRequests ks s1 = offlineRequests ks s2"
  unfolding offlineRequests_def
  by (rule arg_cong [where f = concat], rule map_cong) (simp_all add: assms)

lemma cleanup_nobody_live:
  assumes "distinct ks"
  shows "snd (fold (cleanupOfflineVip c {}) ks (store, d))
           = fold (\<lambda>(sl, m). deleteMessage c sl m) (offlineRequests ks store) d \<and>
         vipMessageIds (fst (fold (cleanupOfflineVip c {}) ks (store, d)))
           = filter (\<lambda>xm. fst xm \<notin> set ks) (vipMessageIds store) \<and>
         headerId (fst (fold (cleanupOfflineVip c {}) ks (store, d))) = headerId store \<and>
         footerId (fst (fold (cleanupOfflineVip c {}) ks (store, d))) = footerId store"
  using assms
proof (induction ks arbitrary: store d)
  case Nil
  then show ?case by (simp add: offlineRequests_def)
next
  case (Cons x ks)
  obtain s1 d1 where f: "cleanupOfflineVip c {} x (store, d) = (s1, d1)"
    by (cases "cleanupOfflineVip c {} x (store, d)")
  have xk: "x \<notin> set ks" and dk: "distinct ks" using Cons.prems by auto
  have d1: "d1 = fold (\<lambda>(sl, m). deleteMessage c sl m) (offlineRequests [x] store) d"
    using f by (auto simp: cleanupOfflineVip_def offlineRequests_def Let_def map_of_delete
                     split: option.splits if_splits)
  have c1: "vipMessageIds s1 = AList.delete x (vipMessageIds store)"
    and h1: "headerId s1 = headerId store" "footerId s1 = footerId store"
    using f by (auto simp: cleanupOfflineVip_def Let_def split: option.splits if_splits)
  have k1: "\<And>y. y \<noteq> x \<Longrightarrow> map_of (vipClipMessageIds s1) y = map_of (vipClipMessageIds store) y"
    using f by (auto simp: cleanupOfflineVip_def Let_def map_of_delete split: option.splits if_splits)
  have rq: "offlineRequests ks s1 = offlineRequests ks store"
  proof (rule offlineRequests_cong)
    fix y assume "y \<in> set ks"
    with xk have "y \<noteq> x" by auto
    then show "map_of (vipMessageIds s1) y = map_of (vipMessageIds store) y"
      "map_of (vipClipMessageIds s1) y = map_of (vipClipMessageIds store) y"
      by (simp_all add: c1 map_of_delete k1)
  qed
  have ap: "offlineRequests (x # ks) store = offlineRequests [x] store @ offlineRequests ks store"
    by (simp add: offlineRequests_def)
  have fl: "filter (\<lambda>xm. fst xm \<notin> set ks) (AList.delete x (vipMessageIds store))
            = filter (\<lambda>xm. fst xm \<notin> set (x # ks)) (vipMessageIds store)"
    by (auto simp: AList.delete_eq intro: filter_cong)
  from Cons.IH [OF dk, of s1 d1] f d1 rq ap c1 h1 fl show ?case by simp
qed


lemma loaded_store:
  "store\<lparr>headerId := cfg_headerId config, footerId := cfg_footerId config,
          vipMessageIds := orEmpty (cfg_vipMessageIds config),
          vipClipMessageIds := orEmpty (cfg_vipClipMessageIds config)\<rparr> = loadedVipStore config"
  by (simp add: loadedVipStore_def)

lemma loadVipChannelConfig_Some:
  "configDocs w g = Some config \<Longrightarrow>
   loadVipChannelConfig g w
     = (Some config, w\<lparr>messageStore := (messageStore w)(g \<mapsto> loadedVipStore config)\<rparr>)"
  by (simp add: loadVipChannelConfig_def Let_def loaded_store)

lemma vip_sync_same:
  "(case cfg_vipMessageIds config of
      None \<Rightarrow> w\<lparr>messageStore := (messageStore w)(g \<mapsto> loadedVipStore config)\<rparr>
    | Some ids \<Rightarrow>
        w\<lparr>messageStore := (messageStore w)(g \<mapsto> loadedVipStore config)\<rparr>
         \<lparr>messageStore := (messageStore (w\<lparr>messageStore := (messageStore w)(g \<mapsto> loadedVipStore config)\<rparr>))(g \<mapsto>
            (case messageStore (w\<lparr>messageStore := (messageStore w)(g \<mapsto> loadedVipStore config)\<rparr>) g of
               None \<Rightarrow> emptyVipStore | Some s \<Rightarrow> s)
              \<lparr>vipMessageIds := ids,
               vipClipMessageIds := orEmpty (cfg_vipClipMessageIds config)\<rparr>)\<rparr>)
   = w\<lparr>messageStore := (messageStore w)(g \<mapsto> loadedVipStore config)\<rparr>"
  by (cases "cfg_vipMessageIds config") (simp_all add: loadedVipStore_def orEmpty_def)

lemma checkVips_configured:
  assumes "configDocs w g = Some config" "cfg_channelId config = Some c" "c \<noteq> []"
    "channels (discord w) c = Some ms"
  shows "checkVips g i fd w =
     (let w1 = w\<lparr>messageStore := (messageStore w)(g \<mapsto> loadedVipStore config)\<rparr>
      in if rosterIds fd = [] then
           (Completed, putVip g (clearAllVips c (loadedVipStore config, discord w)) w1)
         else
           (case reconcileVips c i fd (loadedVipStore config, discord w) of
              Inl sd \<Rightarrow> (Aborted, putVip g sd w1)
            | Inr sd \<Rightarrow>
                (Completed,
                 setVipLiveChannel g c (headerId (fst sd)) (footerId (fst sd))
                   (vipMessageIds (fst sd)) (vipClipMessageIds (fst sd)) (putVip g sd w1))))"
  using assms
  unfolding checkVips_def loadVipChannelConfig_Some [OF assms(1)] prod.case option.case Let_def
    vip_sync_same
  by (simp cong: sum.case_cong)


lemma fold_card_deletes:
  "fold (\<lambda>(x, m). deleteMessage c (CardSlot x) m) al d
     = fold (\<lambda>(sl, m). deleteMessage c sl m) (map (\<lambda>(x, m). (CardSlot x, m)) al) d"
  "fold (\<lambda>(x, m). deleteMessage c (ClipSlot x) m) al d
     = fold (\<lambda>(sl, m). deleteMessage c sl m) (map (\<lambda>(x, m). (ClipSlot x, m)) al) d"
  by (induction al arbitrary: d) auto

lemma clearAllVips_result:
  assumes "channels d c = Some ms"
  shows "fst (clearAllVips c (store, d)) = store\<lparr>vipMessageIds := [], vipClipMessageIds := []\<rparr> \<and>
         newEvents d (snd (clearAllVips c (store, d)))
           = deleteRequests c (map (\<lambda>(x, m). (CardSlot x, m)) (vipMessageIds store)
                               @ map (\<lambda>(x, m). (ClipSlot x, m)) (vipClipMessageIds store))
             @ (if truthy (footerId store) \<and> the (footerId store) \<in> set ms
                   \<and> the (footerId store) \<notin> snd ` set (vipMessageIds store) \<union> snd ` set (vipClipMessageIds store)
                then [Edited c (the (footerId store)) (FooterEmbed 0)] else [])"
proof -
  let ?reqs = "map (\<lambda>(x, m). (CardSlot x, m)) (vipMessageIds store)
               @ map (\<lambda>(x, m). (ClipSlot x, m)) (vipClipMessageIds store)"
  let ?d2 = "fold (\<lambda>(sl, m). deleteMessage c sl m) ?reqs d"
  have d2: "fold (\<lambda>(x, m). deleteMessage c (ClipSlot x) m) (vipClipMessageIds store)
              (fold (\<lambda>(x, m). deleteMessage c (CardSlot x) m) (vipMessageIds store) d) = ?d2"
    by (simp add: fold_card_deletes)
  have ids: "snd ` set ?reqs = snd ` set (vipMessageIds store) \<union> snd ` set (vipClipMessageIds store)"
    by (force simp: image_Un)
  from fold_deleteMessage [of c ?reqs d] assms ids
  have ev: "events ?d2 = events d @ deleteRequests c ?reqs"
    and ft: "\<And>f. fetchMessage c f ?d2 = (f \<in> set ms \<and>
                f \<notin> snd ` set (vipMessageIds store) \<union> snd ` set (vipClipMessageIds store))"
    by (auto simp: fetchMessage_def)
  show ?thesis
    unfolding clearAllVips_def prod.case Let_def d2
    using ev ft by (simp add: newEvents_def editMessage_def)
qed

lemma cardsDeleted_offlineRequests:
  assumes "distinct (map fst (vipMessageIds store))"
  shows "cardsDeleted (deleteRequests c (offlineRequests (map fst (vipMessageIds store)) store))
         = vipMessageIds store"
proof -
  have "\<And>P. distinct (map fst P) \<Longrightarrow> (\<forall>x\<in>set ks. True) \<Longrightarrow>
          cardsDeleted (deleteRequests c
            (concat (map (\<lambda>x. (case map_of P x of None \<Rightarrow> [] | Some m \<Rightarrow> [(CardSlot x, m)])
                     @ (case map_of K x of None \<Rightarrow> []
                        | Some k \<Rightarrow> if k = [] then [] else [(ClipSlot x, k)])) ks)))
          = List.map_filter (\<lambda>x. map_option (Pair x) (map_of P x)) ks" for ks K
    by (induction ks)
       (auto simp: deleteRequests_def List.map_filter_simps split: option.splits)
  from this [OF assms, of "map fst (vipMessageIds store)" "vipClipMessageIds store"]
    map_filter_keys [OF assms, of "{}"]
  show ?thesis by (simp add: offlineRequests_def)
qed


lemma reconcileVips_nobody_live:
  assumes ch: "channels d c = Some ms" and dk: "distinct (map fst (vipMessageIds store))"
    and off: "mergeLive (liveStreams fd) (getUsersFromDb fd) = []"
    and run: "reconcileVips c i fd (store, d) = Inr (store', d')"
    and reqs: "reqs = offlineRequests (map fst (vipMessageIds store)) store"
    and remaining: "remaining = filter (\<lambda>y. y \<notin> snd ` set reqs) ms"
  shows "\<exists>E2. newEvents d d' = deleteRequests c reqs @ E2 \<and>
           (if truthy (footerId store) \<and> the (footerId store) \<in> set remaining
            then (if last remaining = the (footerId store)
                  then E2 = [Edited c (the (footerId store)) (FooterEmbed 0)]
                  else \<exists>n. E2 = [DeleteRequested c FooterSlot (the (footerId store)),
                                 Sent c (FooterEmbed 0) n])
            else if i then E2 = [] else \<exists>n. E2 = [Sent c (FooterEmbed 0) n]) \<and>
           vipMessageIds store' = [] \<and> headerId store' = headerId store"
proof -
  let ?sd1 = "fold (cleanupOfflineVip c {}) (map fst (vipMessageIds store)) (store, d)"
  let ?d1 = "fold (\<lambda>(sl, m). deleteMessage c sl m) reqs d"
  from cleanup_nobody_live [OF dk, of c store d] reqs
  have s1: "snd ?sd1 = ?d1" "vipMessageIds (fst ?sd1) = []"
    "headerId (fst ?sd1) = headerId store" "footerId (fst ?sd1) = footerId store"
    by (auto simp: filter_empty_conv)
  from fold_deleteMessage [of c reqs d] ch remaining
  have d1: "events ?d1 = events d @ deleteRequests c reqs" "channels ?d1 c = Some remaining"
    by auto
  obtain s1 where sd1: "?sd1 = (s1, ?d1)" using s1(1) by (cases ?sd1) auto
  have ft: "refreshVipFooter c i 0 (s1, ?d1) = Inr (store', d')"
    using run off sd1 by (simp add: reconcileVips_def Let_def)
  have f1: "footerId s1 = footerId store" "vipMessageIds s1 = []" "headerId s1 = headerId store"
    using s1 sd1 by auto
  have fetch: "\<And>f. fetchMessage c f ?d1 = (f \<in> set remaining)"
    using d1(2) by (simp add: fetchMessage_def)
  have lastm: "lastMessage c ?d1 = (if remaining = [] then None else Some (last remaining))"
    using d1(2) by (simp add: lastMessage_def)
  have dele: "\<And>f. events (deleteMessage c FooterSlot f ?d1)
                = events d @ deleteRequests c reqs @ [DeleteRequested c FooterSlot f]"
    using d1(1) by (simp add: deleteMessage_def)
  show ?thesis
  proof (cases "truthy (footerId store) \<and> the (footerId store) \<in> set remaining")
    case True
    then obtain f where f: "footerId store = Some f" "f \<noteq> []" "f \<in> set remaining"
      by (cases "footerId store") auto
    then have ne: "remaining \<noteq> []" by auto
    show ?thesis
    proof (cases "last remaining = f")
      case True
      with ft f f1 fetch lastm ne d1(1) show ?thesis
        by (intro exI[of _ "[Edited c f (FooterEmbed 0)]"])
           (auto simp: refreshVipFooter_def editMessage_def newEvents_def)
    next
      case False
      with ft f f1 fetch lastm ne obtain n where
        snd: "send c (FooterEmbed 0) (deleteMessage c FooterSlot f ?d1) = (Some n, d')"
        and st: "store' = s1\<lparr>footerId := Some n\<rparr>"
        by (auto simp: refreshVipFooter_def split: prod.splits option.splits)
      from send_events [OF snd] dele [of f] f False st f1 show ?thesis
        by (intro exI[of _ "[DeleteRequested c FooterSlot f, Sent c (FooterEmbed 0) n]"])
           (auto simp: newEvents_def)
    qed
  next
    case False
    then have nf: "\<not> (truthy (footerId s1) \<and> fetchMessage c (the (footerId s1)) ?d1)"
      using f1 fetch by simp
    show ?thesis
    proof (cases i)
      case True
      with ft nf False f1 d1(1) show ?thesis
        by (intro exI[of _ "[]"]) (auto simp: refreshVipFooter_def newEvents_def)
    next
      case i: False
      with ft nf obtain n where
        snd: "send c (FooterEmbed 0) ?d1 = (Some n, d')"
        and st: "store' = s1\<lparr>footerId := Some n\<rparr>"
        by (auto simp: refreshVipFooter_def split: prod.splits option.splits)
      from send_events [OF snd] d1(1) False i st f1 show ?thesis
        by (intro exI[of _ "[Sent c (FooterEmbed 0) n]"]) (auto simp: newEvents_def)
    qed
  qed
qed


text \<open>
  C2, as the code has it, for a guild whose VIP tracker is set up on a channel that can be
  fetched. When the roster has no ids, the pass asks to delete every stored card message
  and every stored clip message, empties both maps of the store, and edits the footer to
  count zero when the footer can still be fetched; it makes no other request. When the
  roster has ids but nobody is live, a pass that runs to its end asks to delete the card
  message of every entry and the clip message stored for it, leaves the card map empty in
  the store and in the persisted configuration, and then shows count zero in the footer:
  it edits the footer when the footer is the newest message left in the channel, and
  otherwise asks to delete the footer and sends a new one. The header is not touched.
\<close>

theorem empty_live_list_pass:
  assumes cfg: "configDocs w g = Some config" "cfg_channelId config = Some c" "c \<noteq> []"
    "channels (discord w) c = Some ms"
  shows
    "(rosterIds fd = [] \<longrightarrow>
        fst (checkVips g i fd w) = Completed \<and>
        newEvents (discord w) (discord (snd (checkVips g i fd w)))
          = deleteRequests c
              (map (\<lambda>(x, m). (CardSlot x, m)) (vipMessageIds (loadedVipStore config))
               @ map (\<lambda>(x, m). (ClipSlot x, m)) (vipClipMessageIds (loadedVipStore config)))
            @ (if truthy (cfg_footerId config) \<and> the (cfg_footerId config) \<in> set ms
                  \<and> the (cfg_footerId config) \<notin> snd ` set (vipMessageIds (loadedVipStore config))
                        \<union> snd ` set (vipClipMessageIds (loadedVipStore config))
               then [Edited c (the (cfg_footerId config)) (FooterEmbed 0)] else []) \<and>
        messageStore (snd (checkVips g i fd w)) g
          = Some ((loadedVipStore config)\<lparr>vipMessageIds := [], vipClipMessageIds := []\<rparr>))
     \<and>
     (rosterIds fd \<noteq> [] \<and> mergeLive (liveStreams fd) (getUsersFromDb fd) = [] \<and>
      distinct (map fst (vipMessageIds (loadedVipStore config))) \<and>
      fst (checkVips g i fd w) = Completed
      \<longrightarrow>
        (\<exists>E2. newEvents (discord w) (discord (snd (checkVips g i fd w)))
                 = deleteRequests c
                     (offlineRequests (map fst (vipMessageIds (loadedVipStore config)))
                        (loadedVipStore config)) @ E2 \<and>
           (let remaining =
                  filter (\<lambda>y. y \<notin> snd ` set (offlineRequests
                             (map fst (vipMessageIds (loadedVipStore config))) (loadedVipStore config))) ms
            in if truthy (cfg_footerId config) \<and> the (cfg_footerId config) \<in> set remaining
               then (if last remaining = the (cfg_footerId config)
                     then E2 = [Edited c (the (cfg_footerId config)) (FooterEmbed 0)]
                     else \<exists>n. E2 = [DeleteRequested c FooterSlot (the (cfg_footerId config)),
                                    Sent c (FooterEmbed 0) n])
               else if i then E2 = [] else \<exists>n. E2 = [Sent c (FooterEmbed 0) n])) \<and>
        cardsDeleted (newEvents (discord w) (discord (snd (checkVips g i fd w))))
          = vipMessageIds (loadedVipStore config) \<and>
        map_option vipMessageIds (messageStore (snd (checkVips g i fd w)) g) = Some [] \<and>
        Option.bind (configDocs (snd (checkVips g i fd w)) g) cfg_vipMessageIds = Some [])"
    (is "(?PA \<longrightarrow> ?A) \<and> (?PB \<longrightarrow> ?B1 \<and> ?B2 \<and> ?B3 \<and> ?B4)")
proof (rule conjI; rule impI)
  let ?st = "loadedVipStore config"
  note cv = checkVips_configured [OF cfg, of i fd]
  assume r: ?PA
  from clearAllVips_result [OF cfg(4), of ?st] r cv
  show ?A
    by (simp add: putVip_def Let_def loadedVipStore_def)
next
  let ?st = "loadedVipStore config"
  note cv = checkVips_configured [OF cfg, of i fd]
  assume a: ?PB
  then obtain s' d' where run: "reconcileVips c i fd (?st, discord w) = Inr (s', d')"
    using cv by (cases "reconcileVips c i fd (?st, discord w)") (auto simp: Let_def)
  have res: "discord (snd (checkVips g i fd w)) = d'"
    "map_option vipMessageIds (messageStore (snd (checkVips g i fd w)) g) = Some (vipMessageIds s')"
    "Option.bind (configDocs (snd (checkVips g i fd w)) g) cfg_vipMessageIds
       = Some (mergeMapField (cfg_vipMessageIds config) (vipMessageIds s'))"
    using a cv run cfg(1)
    by (simp_all add: Let_def setVipLiveChannel_def putVip_def)
  from a have off: "mergeLive (liveStreams fd) (getUsersFromDb fd) = []"
    and dk: "distinct (map fst (vipMessageIds ?st))" by simp_all
  have fid: "footerId ?st = cfg_footerId config" by (simp add: loadedVipStore_def)
  from reconcileVips_nobody_live [OF cfg(4) dk off run refl refl, unfolded fid]
  obtain E2 where
    E2: "newEvents (discord w) d' = deleteRequests c
           (offlineRequests (map fst (vipMessageIds ?st)) ?st) @ E2"
      "(let remaining = filter (\<lambda>y. y \<notin> snd ` set (offlineRequests
                           (map fst (vipMessageIds ?st)) ?st)) ms
        in if truthy (cfg_footerId config) \<and> the (cfg_footerId config) \<in> set remaining
           then (if last remaining = the (cfg_footerId config)
                 then E2 = [Edited c (the (cfg_footerId config)) (FooterEmbed 0)]
                 else \<exists>n. E2 = [DeleteRequested c FooterSlot (the (cfg_footerId config)),
                                Sent c (FooterEmbed 0) n])
           else if i then E2 = [] else \<exists>n. E2 = [Sent c (FooterEmbed 0) n])"
      "vipMessageIds s' = []"
    unfolding Let_def by blast
  have b1: ?B1
  proof (intro exI[of _ E2] conjI)
    show "newEvents (discord w) (discord (snd (checkVips g i fd w)))
            = deleteRequests c (offlineRequests (map fst (vipMessageIds ?st)) ?st) @ E2"
      using E2(1) res(1) by simp
  qed (rule E2(2))
  have "cardsDeleted E2 = []"
    using E2(2) by (auto simp: Let_def split: if_splits)
  then have b2: ?B2
    using E2(1) res(1) cardsDeleted_offlineRequests [OF dk, of c] by simp
  have b3: ?B3 using res(2) E2(3) by simp
  have b4: ?B4 using res(3) E2(3) by (simp add: mergeMapField_def)
  from b1 b2 b3 b4 show "?B1 \<and> ?B2 \<and> ?B3 \<and> ?B4" by blast
qed

lemma crowdedVipPass:
  "fst (checkVips ''g1'' False offAirFeed crowdedVipWorld) = Completed \<and>
   newEvents (discord crowdedVipWorld)
       (discord (snd (checkVips ''g1'' False offAirFeed crowdedVipWorld)))
     = [DeleteRequested ''ch'' (CardSlot ''a'') ''m1'',
        DeleteRequested ''ch'' FooterSlot ''f'',
        Sent ''ch'' (FooterEmbed 0) ''n1'']"
  by (simp add: vip_defs crowdedVipWorld_def offAirFeed_def surface_defs Let_def
        mergeLive_def liveStreamMap_def getUsersFromDb_def List.map_filter_simps)

text \<open>
  Nobody of the roster is live and another message follows the footer: the pass asks to
  delete the footer and sends a new one; it does not edit it.
\<close>

theorem empty_live_list_pass_counterexample:
  "mergeLive (liveStreams offAirFeed) (getUsersFromDb offAirFeed) = [] \<and>
   DeleteRequested ''ch'' FooterSlot ''f''
     \<in> set (newEvents (discord crowdedVipWorld)
              (discord (snd (checkVips ''g1'' False offAirFeed crowdedVipWorld)))) \<and>
   list_all (\<lambda>e. \<forall>m p. e \<noteq> Edited ''ch'' m p)
     (newEvents (discord crowdedVipWorld)
        (discord (snd (checkVips ''g1'' False offAirFeed crowdedVipWorld))))"
  by (simp add: crowdedVipPass)
     (simp add: offAirFeed_def mergeLive_def liveStreamMap_def getUsersFromDb_def
        List.map_filter_simps)


theorem empty_live_list_pass_witness:
  "newEvents (discord sampleVipWorld)
       (discord (snd (checkVips ''g1'' False noRosterFeed sampleVipWorld)))
     = [DeleteRequested ''ch'' (CardSlot ''a'') ''m1'',
        DeleteRequested ''ch'' (CardSlot ''b'') ''m2'',
        DeleteRequested ''ch'' (ClipSlot ''b'') ''k0'',
        Edited ''ch'' ''f'' (FooterEmbed 0)] \<and>
   cardsDeleted (newEvents (discord crowdedVipWorld)
       (discord (snd (checkVips ''g1'' False offAirFeed crowdedVipWorld))))
     = [(''a'', ''m1'')] \<and>
   Option.bind (configDocs (snd (checkVips ''g1'' False offAirFeed crowdedVipWorld)) ''g1'')
       cfg_vipMessageIds = Some []"
proof -
  let ?c1 = "the (configDocs sampleVipWorld ''g1'')"
  let ?c2 = "the (configDocs crowdedVipWorld ''g1'')"
  have h1: "configDocs sampleVipWorld ''g1'' = Some ?c1" "cfg_channelId ?c1 = Some ''ch''"
    "''ch'' \<noteq> []"
    "channels (discord sampleVipWorld) ''ch'' = Some [''h'', ''m1'', ''m2'', ''k0'', ''f'']"
    by (simp_all add: sampleVipWorld_def sampleDiscord_def)
  have h2: "configDocs crowdedVipWorld ''g1'' = Some ?c2" "cfg_channelId ?c2 = Some ''ch''"
    "''ch'' \<noteq> []"
    "channels (discord crowdedVipWorld) ''ch'' = Some [''h'', ''m1'', ''f'', ''u1'']"
    by (simp_all add: crowdedVipWorld_def)
  have l2: "mergeLive (liveStreams offAirFeed) (getUsersFromDb offAirFeed) = []"
    "rosterIds offAirFeed \<noteq> []" "rosterIds noRosterFeed = []"
    by (simp_all add: offAirFeed_def noRosterFeed_def mergeLive_def liveStreamMap_def
          getUsersFromDb_def List.map_filter_simps)
  have v: "vipMessageIds (loadedVipStore ?c1) = [(''a'', ''m1''), (''b'', ''m2'')]"
    "vipClipMessageIds (loadedVipStore ?c1) = [(''b'', ''k0'')]"
    "cfg_footerId ?c1 = Some ''f''"
    "vipMessageIds (loadedVipStore ?c2) = [(''a'', ''m1'')]"
    by (simp_all add: loadedVipStore_def sampleVipWorld_def crowdedVipWorld_def orEmpty_def)
  from empty_live_list_pass [OF h1, of noRosterFeed False]
       empty_live_list_pass [OF h2, of offAirFeed False]
       l2 v crowdedVipPass
  show ?thesis
    by (simp add: deleteRequests_def)
qed

section \<open>Properties of starting a tracker\<close>

lemma checkVips_timers:
  "intervals (snd (checkVips g i fd w)) = intervals w \<and>
   activeTrackers (snd (checkVips g i fd w)) = activeTrackers w \<and>
   timeouts (snd (checkVips g i fd w)) = timeouts w \<and>
   nextHandle (snd (checkVips g i fd w)) = nextHandle w"
  unfolding checkVips_def loadVipChannelConfig_def putVip_def setVipLiveChannel_def
  by (simp add: Let_def split: option.split sum.split)

lemma loadVipChannelConfig_timers:
  "intervals (snd (loadVipChannelConfig g w)) = intervals w \<and>
   activeTrackers (snd (loadVipChannelConfig g w)) = activeTrackers w \<and>
   timeouts (snd (loadVipChannelConfig g w)) = timeouts w \<and>
   nextHandle (snd (loadVipChannelConfig g w)) = nextHandle w"
  unfolding loadVipChannelConfig_def by (simp add: Let_def split: option.split)

lemma vipTimeoutFires_timers:
  assumes "timeouts w = g # rest"
  shows "intervals (vipTimeoutFires fd w) = intervals w @ [(nextHandle w, g)]"
    and "activeTrackers (vipTimeoutFires fd w) = (activeTrackers w)(g \<mapsto> nextHandle w)"
    and "timeouts (vipTimeoutFires fd w) = rest"
    and "nextHandle (vipTimeoutFires fd w) = Suc (nextHandle w)"
  using assms
  by (simp_all add: vipTimeoutFires_def Let_def checkVips_timers registerInterval_def
        loadVipChannelConfig_timers)

text \<open>
  C7. A call of \<open>start\<close> for a pair whose interval is registered changes nothing, and the
  Raid Pile \<open>start\<close> registers its interval in the call, so that a second call finds it.
  The VIP \<open>start\<close> registers nothing in the call: the interval is registered by a callback
  ten seconds later, which does not look at \<open>activeTrackers\<close>. Two calls made before the
  first callback runs both pass the guard, and once both callbacks have run the guild has
  two more interval timers than before, of which only the second is in \<open>activeTrackers\<close>.
\<close>

theorem start_registers_interval:
  fixes w :: vip_world and v :: pile_world
  shows "(activeTrackers w g \<noteq> None \<longrightarrow> startVipTracking g w = w) \<and>
         (activeTrackers v g \<noteq> None \<longrightarrow> startRaidPileTracking g v = v) \<and>
         startRaidPileTracking g (startRaidPileTracking g v) = startRaidPileTracking g v \<and>
         (activeTrackers w g = None \<and> timeouts w = [] \<longrightarrow>
            timersOf g (vipTimeoutFires fd (vipTimeoutFires fd
                (startVipTracking g (startVipTracking g w))))
              = timersOf g w @ [nextHandle w, Suc (nextHandle w)] \<and>
            activeTrackers (vipTimeoutFires fd (vipTimeoutFires fd
                (startVipTracking g (startVipTracking g w)))) g
              = Some (Suc (nextHandle w)))"
proof (intro conjI impI)
  show "startRaidPileTracking g (startRaidPileTracking g v) = startRaidPileTracking g v"
    by (simp add: startRaidPileTracking_def registerInterval_def)
next
  assume a: "activeTrackers w g = None \<and> timeouts w = []"
  let ?w2 = "startVipTracking g (startVipTracking g w)"
  have t2: "timeouts ?w2 = [g, g]" "intervals ?w2 = intervals w"
    "activeTrackers ?w2 = activeTrackers w" "nextHandle ?w2 = nextHandle w"
    using a by (simp_all add: startVipTracking_def)
  note f1 = vipTimeoutFires_timers [OF t2(1), of fd]
  note f2 = vipTimeoutFires_timers [OF f1(3), of fd]
  show "timersOf g (vipTimeoutFires fd (vipTimeoutFires fd ?w2))
          = timersOf g w @ [nextHandle w, Suc (nextHandle w)]"
    by (simp add: timersOf_def f2 f1 t2)
  show "activeTrackers (vipTimeoutFires fd (vipTimeoutFires fd ?w2)) g = Some (Suc (nextHandle w))"
    by (simp add: f2 f1 t2)
qed (simp_all add: startVipTracking_def startRaidPileTracking_def)

theorem start_registers_interval_witness:
  "startVipTracking ''g1'' sampleVipWorld = sampleVipWorld \<and>
   startRaidPileTracking ''g1'' samplePileWorld = samplePileWorld \<and>
   timersOf ''g1'' (vipTimeoutFires sampleFeed (vipTimeoutFires sampleFeed
       (startVipTracking ''g1'' (startVipTracking ''g1'' idleVipWorld)))) = [0, 1] \<and>
   timersOf ''g1'' (snd (stopVipTracking ''g1'' (vipTimeoutFires sampleFeed (vipTimeoutFires sampleFeed
       (startVipTracking ''g1'' (startVipTracking ''g1'' idleVipWorld)))))) = [0]"
proof -
  let ?w = "vipTimeoutFires sampleFeed (vipTimeoutFires sampleFeed
       (startVipTracking ''g1'' (startVipTracking ''g1'' idleVipWorld)))"
  have i: "activeTrackers idleVipWorld ''g1'' = None \<and> timeouts idleVipWorld = []"
    "nextHandle idleVipWorld = 0" "timersOf ''g1'' idleVipWorld = []"
    "activeTrackers sampleVipWorld ''g1'' \<noteq> None" "activeTrackers samplePileWorld ''g1'' \<noteq> None"
    by (simp_all add: idleVipWorld_def timersOf_def sampleVipWorld_def samplePileWorld_def)
  note t = start_registers_interval [of sampleVipWorld "''g1''" samplePileWorld]
  note u = start_registers_interval [of idleVipWorld "''g1''" samplePileWorld sampleFeed]
  have two: "timersOf ''g1'' ?w = [0, 1]" "activeTrackers ?w ''g1'' = Some 1"
    using u i by simp_all
  have iv: "intervals ?w = [(0, ''g1''), (1, ''g1'')]"
    by (simp add: vipTimeoutFires_timers startVipTracking_def idleVipWorld_def)
  have "timersOf ''g1'' (snd (stopVipTracking ''g1'' ?w)) = timersOf ''g1'' (clearTracker ''g1'' ?w)"
    unfolding stopVipTracking_def loadVipChannelConfig_def
    by (simp add: Let_def timersOf_def split: option.split)
  also have "\<dots> = [0]"
    by (simp add: clearTracker_def two iv timersOf_def)
  finally show ?thesis using t i two by simp
qed

section \<open>Properties of the bootstrap\<close>







lemma putPool_fields:
  "intervals (putPool g sd w) = intervals w" "activeTrackers (putPool g sd w) = activeTrackers w"
  "timeouts (putPool g sd w) = timeouts w" "nextHandle (putPool g sd w) = nextHandle w"
  "spotlightIndex (putPool g sd w) = spotlightIndex w"
  by (simp_all add: putPool_def)

lemma persistPool_fields:
  "intervals (persistPool g cf st sp k w) = intervals w"
  "activeTrackers (persistPool g cf st sp k w) = activeTrackers w"
  "timeouts (persistPool g cf st sp k w) = timeouts w"
  "nextHandle (persistPool g cf st sp k w) = nextHandle w"
  "spotlightIndex (persistPool g cf st sp k w) = spotlightIndex w"
  by (simp_all add: persistPool_def Let_def)

lemma loadCommunityPoolChannelConfig_fields:
  "intervals (snd (loadCommunityPoolChannelConfig g w)) = intervals w"
  "activeTrackers (snd (loadCommunityPoolChannelConfig g w)) = activeTrackers w"
  "timeouts (snd (loadCommunityPoolChannelConfig g w)) = timeouts w"
  "nextHandle (snd (loadCommunityPoolChannelConfig g w)) = nextHandle w"
  "spotlightIndex (snd (loadCommunityPoolChannelConfig g w)) = spotlightIndex w"
  by (simp_all add: loadCommunityPoolChannelConfig_def Let_def split: option.split)

lemma checkCommunityPool_timers:
  "intervals (snd (checkCommunityPool g i fd w)) = intervals w \<and>
   activeTrackers (snd (checkCommunityPool g i fd w)) = activeTrackers w \<and>
   timeouts (snd (checkCommunityPool g i fd w)) = timeouts w \<and>
   nextHandle (snd (checkCommunityPool g i fd w)) = nextHandle w \<and>
   spotlightIndex (snd (checkCommunityPool g i fd w))
     \<in> {spotlightIndex w,
        fst (nextSpotlight (spotlightIndex w) (sortedLiveUsers (liveStreams fd) (getUsersFromDb fd)))}"
proof -
  obtain r v where l: "loadCommunityPoolChannelConfig g w = (r, v)"
    by (cases "loadCommunityPoolChannelConfig g w")
  have v: "intervals v = intervals w" "activeTrackers v = activeTrackers w"
    "timeouts v = timeouts w" "nextHandle v = nextHandle w" "spotlightIndex v = spotlightIndex w"
    using loadCommunityPoolChannelConfig_fields [of g w] by (simp_all add: l)
  show ?thesis
    unfolding checkCommunityPool_def l
    by (simp add: Let_def v putPool_fields persistPool_fields split: option.split sum.split)
qed


lemma setCommunityPoolChannel_timers:
  "intervals (setCommunityPoolChannel g c h f cs sp w) = intervals w \<and>
   activeTrackers (setCommunityPoolChannel g c h f cs sp w) = activeTrackers w \<and>
   timeouts (setCommunityPoolChannel g c h f cs sp w) = timeouts w \<and>
   spotlightIndex (setCommunityPoolChannel g c h f cs sp w) = spotlightIndex w"
  by (simp add: setCommunityPoolChannel_def Let_def)


lemma runInitialCommunityPoolCheck_index:
  "spotlightIndex (snd (runInitialCommunityPoolCheck g c fd w))
     \<in> {0, fst (nextSpotlight 0 (sortedLiveUsers (liveStreams fd) (getUsersFromDb fd)))}"
proof -
  have "\<And>v. spotlightIndex v = 0 \<Longrightarrow>
          spotlightIndex (snd (checkCommunityPool g True fd v))
            \<in> {0, fst (nextSpotlight 0 (sortedLiveUsers (liveStreams fd) (getUsersFromDb fd)))}"
    using checkCommunityPool_timers [of g True fd] by metis
  then show ?thesis
    unfolding runInitialCommunityPoolCheck_def
    by (simp add: Let_def setCommunityPoolChannel_timers split: prod.split option.split)
qed









lemma continues_trans: "continues d d1 \<Longrightarrow> continues d1 d2 \<Longrightarrow> continues d d2"
  by (auto simp: continues_def)





































section \<open>Properties of stopping a tracker\<close>

lemma fold_delete_events:
  "events (fold (deleteMessage c sl) ids d) = events d @ map (DeleteRequested c sl) ids"
  by (induction ids arbitrary: d) (simp_all add: deleteMessage_def)

lemma clearTracker_intervals:
  "activeTrackers (clearTracker g w) g = None"
  "discord (clearTracker g w) = discord w"
  "configDocs (clearTracker g w) = configDocs w"
  "messageStore (clearTracker g w) = messageStore w"
  by (simp_all add: clearTracker_def split: option.split)

lemma loadVipChannelConfig_rest:
  "intervals (snd (loadVipChannelConfig g w)) = intervals w"
  "activeTrackers (snd (loadVipChannelConfig g w)) = activeTrackers w"
  "discord (snd (loadVipChannelConfig g w)) = discord w"
  "configDocs (snd (loadVipChannelConfig g w)) = configDocs w"
  by (simp_all add: loadVipChannelConfig_def Let_def split: option.split)

lemma stopVipTracking_timer:
  "activeTrackers (snd (stopVipTracking g w)) g = None \<and>
   intervals (snd (stopVipTracking g w)) = intervals (clearTracker g w)"
  unfolding stopVipTracking_def
  by (simp add: Let_def clearTracker_intervals loadVipChannelConfig_rest split: option.split)

lemma stopVipTracking_unconfigured:
  assumes "configDocs w g = None \<or> (\<exists>cfg. configDocs w g = Some cfg \<and> \<not> truthy (cfg_channelId cfg))"
  shows "stopVipTracking g w = (False, clearTracker g w)"
  using assms unfolding stopVipTracking_def
  by (auto simp: Let_def clearTracker_intervals)

lemma stopVipTracking_configured:
  assumes "configDocs w g = Some cfg" "truthy (cfg_channelId cfg)"
  defines "w' \<equiv> snd (stopVipTracking g w)"
  shows "fst (stopVipTracking g w) \<and> configDocs w' g = None \<and> messageStore w' g = None \<and>
         newEvents (discord w) (discord w')
           = (if channels (discord w) (the (cfg_channelId cfg)) = None then []
              else map (DeleteRequested (the (cfg_channelId cfg)) ConfigSlot)
                     (filterBoolean
                        ([cfg_headerId cfg, cfg_footerId cfg]
                         @ map (Some \<circ> snd) (orEmpty (cfg_vipMessageIds cfg))
                         @ map (Some \<circ> snd) (orEmpty (cfg_vipClipMessageIds cfg)))))"
  using assms(1,2) unfolding w'_def stopVipTracking_def
  by (simp add: Let_def clearTracker_intervals loadVipChannelConfig_rest fold_delete_events
        newEvents_def)

lemma stopRaidPileTracking_timer:
  "activeTrackers (snd (stopRaidPileTracking g w)) g = None \<and>
   intervals (snd (stopRaidPileTracking g w)) = intervals (clearTracker g w)"
  unfolding stopRaidPileTracking_def
  by (simp add: Let_def clearTracker_intervals split: option.split)

lemma stopRaidPileTracking_unconfigured:
  assumes "configDocs w g = None \<or> (\<exists>cfg. configDocs w g = Some cfg \<and> \<not> truthy (rcfg_channelId cfg))"
  shows "stopRaidPileTracking g w = (False, clearTracker g w)"
  using assms unfolding stopRaidPileTracking_def
  by (auto simp: Let_def clearTracker_intervals)

lemma stopRaidPileTracking_configured:
  assumes "configDocs w g = Some cfg" "truthy (rcfg_channelId cfg)"
  defines "w' \<equiv> snd (stopRaidPileTracking g w)"
  defines "ids \<equiv> filterBoolean [rcfg_headerId cfg, rcfg_holderId cfg, rcfg_clipId cfg,
                                  rcfg_leaderboardId cfg, rcfg_queueId cfg, rcfg_footerId cfg]"
  shows "fst (stopRaidPileTracking g w) \<and> configDocs w' g = None \<and> messageStore w' g = None \<and>
         newEvents (discord w) (discord w')
           = (if channels (discord w) (the (rcfg_channelId cfg)) = None then []
              else if length ids > 1 then
                BulkDeleteRequested (the (rcfg_channelId cfg)) ids
                  # (if bulkDeleteWorks (discord w) then []
                     else map (DeleteRequested (the (rcfg_channelId cfg)) ConfigSlot) ids)
              else map (DeleteRequested (the (rcfg_channelId cfg)) ConfigSlot) ids)"
proof -
  have eq: "filterBoolean [rcfg_headerId cfg, rcfg_holderId cfg, rcfg_clipId cfg,
                           rcfg_leaderboardId cfg, rcfg_queueId cfg, rcfg_footerId cfg] = ids"
    by (simp add: ids_def)
  have run: "stopRaidPileTracking g w =
      (True, (clearTracker g w)
         \<lparr>discord := (if channels (discord w) (the (rcfg_channelId cfg)) = None then discord w
                       else if length ids > 1 then
                         (case bulkDelete (the (rcfg_channelId cfg)) ids (discord w) of
                            (True, d') \<Rightarrow> d'
                          | (False, d') \<Rightarrow> fold (deleteMessage (the (rcfg_channelId cfg)) ConfigSlot) ids d')
                       else if length ids = 1 then
                         deleteMessage (the (rcfg_channelId cfg)) ConfigSlot (hd ids) (discord w)
                       else discord w),
           configDocs := (configDocs w)(g := None),
           messageStore := (messageStore w)(g := None)\<rparr>)"
    using assms(1,2) unfolding stopRaidPileTracking_def
    by (simp add: Let_def clearTracker_intervals eq)
  show ?thesis
  proof (cases ids)
    case Nil
    then show ?thesis by (simp add: w'_def run newEvents_def)
  next
    case (Cons x xs)
    show ?thesis
    proof (cases xs)
      case Nil
      with Cons show ?thesis by (simp add: w'_def run newEvents_def deleteMessage_def)
    next
      case (Cons y ys)
      with \<open>ids = x # xs\<close> show ?thesis
        by (simp add: w'_def run newEvents_def bulkDelete_def fold_delete_events deleteMessage_def)
    qed
  qed
qed


text \<open>
  C9. \<open>stop\<close> always clears the interval registered for the guild. When no configuration
  document is persisted, or the document has no channel id, it returns \<open>false\<close>, makes no
  request to the messaging surface and leaves the documents as they are. When the document
  has a channel id it returns \<open>true\<close> and deletes the document and the in-memory store; the
  delete requests it makes are none when the channel cannot be fetched, and otherwise cover
  every message id of the configuration: for the VIP tracker one request per id, for the
  Raid Pile tracker one bulk request when there is more than one id, followed by one request
  per id when the bulk request fails.
\<close>

theorem stop_effects:
  fixes w :: vip_world and v :: pile_world
  shows
    "(activeTrackers (snd (stopVipTracking g w)) g = None \<and>
      intervals (snd (stopVipTracking g w)) = intervals (clearTracker g w)) \<and>
     (configDocs w g = None \<or> (\<exists>cf. configDocs w g = Some cf \<and> \<not> truthy (cfg_channelId cf)) \<longrightarrow>
        \<not> fst (stopVipTracking g w) \<and>
        discord (snd (stopVipTracking g w)) = discord w \<and>
        configDocs (snd (stopVipTracking g w)) = configDocs w) \<and>
     (configDocs w g = Some cfg \<and> truthy (cfg_channelId cfg) \<longrightarrow>
        fst (stopVipTracking g w) \<and>
        configDocs (snd (stopVipTracking g w)) g = None \<and>
        messageStore (snd (stopVipTracking g w)) g = None \<and>
        newEvents (discord w) (discord (snd (stopVipTracking g w)))
          = (if channels (discord w) (the (cfg_channelId cfg)) = None then []
             else map (DeleteRequested (the (cfg_channelId cfg)) ConfigSlot)
                    (filterBoolean
                       ([cfg_headerId cfg, cfg_footerId cfg]
                        @ map (Some \<circ> snd) (orEmpty (cfg_vipMessageIds cfg))
                        @ map (Some \<circ> snd) (orEmpty (cfg_vipClipMessageIds cfg)))))) \<and>
     (activeTrackers (snd (stopRaidPileTracking g v)) g = None \<and>
      intervals (snd (stopRaidPileTracking g v)) = intervals (clearTracker g v)) \<and>
     (configDocs v g = None \<or> (\<exists>cf. configDocs v g = Some cf \<and> \<not> truthy (rcfg_channelId cf)) \<longrightarrow>
        \<not> fst (stopRaidPileTracking g v) \<and>
        discord (snd (stopRaidPileTracking g v)) = discord v \<and>
        configDocs (snd (stopRaidPileTracking g v)) = configDocs v) \<and>
     (configDocs v g = Some rcfg \<and> truthy (rcfg_channelId rcfg) \<longrightarrow>
        fst (stopRaidPileTracking g v) \<and>
        configDocs (snd (stopRaidPileTracking g v)) g = None \<and>
        messageStore (snd (stopRaidPileTracking g v)) g = None \<and>
        newEvents (discord v) (discord (snd (stopRaidPileTracking g v)))
          = (if channels (discord v) (the (rcfg_channelId rcfg)) = None then []
             else if length (filterBoolean [rcfg_headerId rcfg, rcfg_holderId rcfg, rcfg_clipId rcfg,
                              rcfg_leaderboardId rcfg, rcfg_queueId rcfg, rcfg_footerId rcfg]) > 1
             then
               BulkDeleteRequested (the (rcfg_channelId rcfg))
                   (filterBoolean [rcfg_headerId rcfg, rcfg_holderId rcfg, rcfg_clipId rcfg,
                      rcfg_leaderboardId rcfg, rcfg_queueId rcfg, rcfg_footerId rcfg])
                 # (if bulkDeleteWorks (discord v) then []
                    else map (DeleteRequested (the (rcfg_channelId rcfg)) ConfigSlot)
                           (filterBoolean [rcfg_headerId rcfg, rcfg_holderId rcfg, rcfg_clipId rcfg,
                              rcfg_leaderboardId rcfg, rcfg_queueId rcfg, rcfg_footerId rcfg]))
             else map (DeleteRequested (the (rcfg_channelId rcfg)) ConfigSlot)
                    (filterBoolean [rcfg_headerId rcfg, rcfg_holderId rcfg, rcfg_clipId rcfg,
                       rcfg_leaderboardId rcfg, rcfg_queueId rcfg, rcfg_footerId rcfg])))"
    (is "?V1 \<and> (?PV2 \<longrightarrow> ?V2) \<and> (?PV3 \<longrightarrow> ?V3) \<and> ?R1 \<and> (?PR2 \<longrightarrow> ?R2) \<and> (?PR3 \<longrightarrow> ?R3)")
proof -
  have ?V1 by (rule stopVipTracking_timer)
  moreover have "?PV2 \<longrightarrow> ?V2"
  proof
    assume ?PV2
    from stopVipTracking_unconfigured [OF this] show ?V2 by (simp add: clearTracker_intervals)
  qed
  moreover have "?PV3 \<longrightarrow> ?V3"
    using stopVipTracking_configured [of w g cfg] by blast
  moreover have ?R1 by (rule stopRaidPileTracking_timer)
  moreover have "?PR2 \<longrightarrow> ?R2"
  proof
    assume ?PR2
    from stopRaidPileTracking_unconfigured [OF this] show ?R2 by (simp add: clearTracker_intervals)
  qed
  moreover have "?PR3 \<longrightarrow> ?R3"
    using stopRaidPileTracking_configured [of v g rcfg] by blast
  ultimately show ?thesis by blast
qed

theorem stop_effects_witness:
  "fst (stopVipTracking ''g1'' idleVipWorld) = False \<and>
   discord (snd (stopVipTracking ''g1'' idleVipWorld)) = discord idleVipWorld \<and>
   fst (stopVipTracking ''g1'' sampleVipWorld) \<and>
   configDocs (snd (stopVipTracking ''g1'' sampleVipWorld)) ''g1'' = None \<and>
   intervals (snd (stopVipTracking ''g1'' sampleVipWorld)) = [] \<and>
   newEvents (discord sampleVipWorld) (discord (snd (stopVipTracking ''g1'' sampleVipWorld)))
     = [DeleteRequested ''ch'' ConfigSlot ''h'', DeleteRequested ''ch'' ConfigSlot ''f'',
        DeleteRequested ''ch'' ConfigSlot ''m1'', DeleteRequested ''ch'' ConfigSlot ''m2'',
        DeleteRequested ''ch'' ConfigSlot ''k0''] \<and>
   fst (stopRaidPileTracking ''g1'' idlePileWorld) = False \<and>
   fst (stopRaidPileTracking ''g1'' samplePileWorld) \<and>
   newEvents (discord samplePileWorld) (discord (snd (stopRaidPileTracking ''g1'' samplePileWorld)))
     = [BulkDeleteRequested ''ch'' [''h'', ''m1'', ''k0'', ''m2'', ''q'', ''f'']]"
proof -
  let ?cv = "the (configDocs sampleVipWorld ''g1'')"
  let ?cr = "the (configDocs samplePileWorld ''g1'')"
  note a = stop_effects [of "''g1''" idleVipWorld ?cv idlePileWorld ?cr]
  note b = stop_effects [of "''g1''" sampleVipWorld ?cv samplePileWorld ?cr]
  have i: "configDocs idleVipWorld ''g1'' = None" "configDocs idlePileWorld ''g1'' = None"
    by (simp_all add: idleVipWorld_def idlePileWorld_def)
  have s: "configDocs sampleVipWorld ''g1'' = Some ?cv" "cfg_channelId ?cv = Some ''ch''"
    "cfg_headerId ?cv = Some ''h''" "cfg_footerId ?cv = Some ''f''"
    "cfg_vipMessageIds ?cv = Some [(''a'', ''m1''), (''b'', ''m2'')]"
    "cfg_vipClipMessageIds ?cv = Some [(''b'', ''k0'')]"
    "channels (discord sampleVipWorld) ''ch'' \<noteq> None"
    "intervals (clearTracker ''g1'' sampleVipWorld) = []"
    by (simp_all add: sampleVipWorld_def sampleDiscord_def clearTracker_def)
  have p: "configDocs samplePileWorld ''g1'' = Some ?cr" "rcfg_channelId ?cr = Some ''ch''"
    "filterBoolean [rcfg_headerId ?cr, rcfg_holderId ?cr, rcfg_clipId ?cr,
                    rcfg_leaderboardId ?cr, rcfg_queueId ?cr, rcfg_footerId ?cr]
       = [''h'', ''m1'', ''k0'', ''m2'', ''q'', ''f'']"
    "channels (discord samplePileWorld) ''ch'' \<noteq> None"
    "bulkDeleteWorks (discord samplePileWorld)"
    by (simp_all add: samplePileWorld_def sampleDiscord_def filterBoolean_def)
  from a i have "fst (stopVipTracking ''g1'' idleVipWorld) = False"
    "discord (snd (stopVipTracking ''g1'' idleVipWorld)) = discord idleVipWorld"
    "fst (stopRaidPileTracking ''g1'' idlePileWorld) = False"
    by simp_all
  moreover from b s have "fst (stopVipTracking ''g1'' sampleVipWorld)"
    "configDocs (snd (stopVipTracking ''g1'' sampleVipWorld)) ''g1'' = None"
    "intervals (snd (stopVipTracking ''g1'' sampleVipWorld)) = []"
    "newEvents (discord sampleVipWorld) (discord (snd (stopVipTracking ''g1'' sampleVipWorld)))
     = [DeleteRequested ''ch'' ConfigSlot ''h'', DeleteRequested ''ch'' ConfigSlot ''f'',
        DeleteRequested ''ch'' ConfigSlot ''m1'', DeleteRequested ''ch'' ConfigSlot ''m2'',
        DeleteRequested ''ch'' ConfigSlot ''k0'']"
    by (simp_all add: filterBoolean_def orEmpty_def)
  moreover from b p have "fst (stopRaidPileTracking ''g1'' samplePileWorld)"
    "newEvents (discord samplePileWorld) (discord (snd (stopRaidPileTracking ''g1'' samplePileWorld)))
     = [BulkDeleteRequested ''ch'' [''h'', ''m1'', ''k0'', ''m2'', ''q'', ''f'']]"
    by simp_all
  ultimately show ?thesis by simp
qed

theorem stop_effects_counterexample:
  "Option.bind (configDocs strandedVipWorld ''g1'') cfg_vipMessageIds
     = Some [(''a'', ''m1''), (''b'', ''m2'')] \<and>
   fst (stopVipTracking ''g1'' strandedVipWorld) \<and>
   configDocs (snd (stopVipTracking ''g1'' strandedVipWorld)) ''g1'' = None \<and>
   newEvents (discord strandedVipWorld) (discord (snd (stopVipTracking ''g1'' strandedVipWorld))) = []"
  unfolding stopVipTracking_def
  by (simp add: strandedVipWorld_def sampleVipWorld_def clearTracker_def Let_def newEvents_def)

section \<open>Properties of the spotlight rotation\<close>

lemma send_dom: "dom (channels (snd (send c p d))) = dom (channels d)"
  by (auto simp: send_def split: list.splits option.splits)

lemma deleteMessage_dom: "dom (channels (deleteMessage c sl m d)) = dom (channels d)"
  by (auto simp: deleteMessage_def split: option.splits)

lemma editMessage_dom: "dom (channels (editMessage c m p d)) = dom (channels d)"
  by (simp add: editMessage_def)

lemma cleanupOfflinePoolUser_dom:
  "dom (channels (snd (cleanupOfflinePoolUser c L x sd))) = dom (channels (snd sd))"
  by (cases sd) (simp add: cleanupOfflinePoolUser_def deleteMessage_dom split: option.split)

lemma cleanupOfflinePoolUser_fold_dom:
  "dom (channels (snd (fold (cleanupOfflinePoolUser c L) xs sd))) = dom (channels (snd sd))"
  by (induction xs arbitrary: sd) (simp_all add: cleanupOfflinePoolUser_dom)

lemma updatePoolCard_dom:
  "dom (channels (snd (case updatePoolCard c spot x sd of Inl r \<Rightarrow> r | Inr r \<Rightarrow> r)))
     = dom (channels (snd sd))"
  by (cases sd)
     (simp add: updatePoolCard_def Let_def case_prod_beta editMessage_dom send_dom
        split: option.split)

lemma updateLivePoolUsers_dom:
  "dom (channels (snd (case updateLivePoolUsers c spot xs sd of Inl r \<Rightarrow> r | Inr r \<Rightarrow> r)))
     = dom (channels (snd sd))"
proof (induction xs arbitrary: sd)
  case Nil
  then show ?case by simp
next
  case (Cons x xs)
  show ?case
  proof (cases "updatePoolCard c spot x sd")
    case (Inl r)
    with updatePoolCard_dom [of c spot x sd] show ?thesis by simp
  next
    case (Inr r)
    with updatePoolCard_dom [of c spot x sd] Cons.IH [of r] show ?thesis by simp
  qed
qed

lemma refreshPoolFooter_dom:
  "dom (channels (snd (case refreshPoolFooter c i n sd of Inl r \<Rightarrow> r | Inr r \<Rightarrow> r)))
     = dom (channels (snd sd))"
  by (cases sd)
     (simp add: refreshPoolFooter_def Let_def case_prod_beta editMessage_dom send_dom
        deleteMessage_dom split: option.split)

lemma replaceSpotlightClip_dom:
  "dom (channels (snd (replaceSpotlightClip c old clips h d))) = dom (channels d)"
  by (simp add: replaceSpotlightClip_def Let_def send_dom deleteMessage_dom split: option.split)

lemma reconcilePool_dom:
  "dom (channels (snd (case reconcilePool c i live spot sd of Inl r \<Rightarrow> r | Inr r \<Rightarrow> r)))
     = dom (channels (snd sd))"
proof -
  let ?sd1 = "fold (cleanupOfflinePoolUser c (set (map live_twitchId live)))
                (map fst (userMessageIds (fst sd))) sd"
  show ?thesis
  proof (cases "updateLivePoolUsers c spot (map live_twitchId live) ?sd1")
    case (Inl r)
    with updateLivePoolUsers_dom [of c spot "map live_twitchId live" ?sd1]
    show ?thesis by (simp add: reconcilePool_def Let_def cleanupOfflinePoolUser_fold_dom)
  next
    case (Inr r)
    with updateLivePoolUsers_dom [of c spot "map live_twitchId live" ?sd1]
      refreshPoolFooter_dom [of c i "length live" r]
    show ?thesis by (simp add: reconcilePool_def Let_def cleanupOfflinePoolUser_fold_dom)
  qed
qed


lemma checkCommunityPool_run:
  fixes w :: pool_world and fd :: feed
  assumes cf: "configDocs w g = Some cfg" and tr: "truthy (pcfg_channelId cfg)"
    and ch: "channels (discord w) (the (pcfg_channelId cfg)) \<noteq> None"
  defines "live \<equiv> sortedLiveUsers (liveStreams fd) (getUsersFromDb fd)"
  defines "spot \<equiv> map_option live_twitchId (snd (nextSpotlight (spotlightIndex w) live))"
  defines "clip \<equiv> replaceSpotlightClip (the (pcfg_channelId cfg)) (spotlightClipId cfg)
                        (clipFor fd) spot (discord w)"
  shows "\<exists>w1 store.
           spotlightIndex w1 = spotlightIndex w \<and> discord w1 = discord w \<and>
           configDocs w1 = configDocs w \<and>
           checkCommunityPool g i fd w =
             (case reconcilePool (the (pcfg_channelId cfg)) i live spot (store, snd clip) of
                Inl sd \<Rightarrow>
                  (Aborted, putPool g sd (w1\<lparr>spotlightIndex := fst (nextSpotlight (spotlightIndex w) live)\<rparr>))
              | Inr sd \<Rightarrow>
                  (Completed,
                   persistPool g cfg (fst sd) spot (fst clip)
                     (putPool g sd (w1\<lparr>spotlightIndex := fst (nextSpotlight (spotlightIndex w) live)\<rparr>))))"
proof -
  obtain v where l: "loadCommunityPoolChannelConfig g w = (Some cfg, v)"
    and v: "discord v = discord w" "configDocs v = configDocs w" "spotlightIndex v = spotlightIndex w"
      "messageStore v g \<noteq> None"
    using cf by (simp add: loadCommunityPoolChannelConfig_def Let_def)
  from ch obtain ms where ch': "channels (discord w) (the (pcfg_channelId cfg)) = Some ms" by auto
  define w1 where "w1 = (if i then v
               else v\<lparr>messageStore := (messageStore v)(g \<mapsto>
                           (case messageStore v g of None \<Rightarrow> emptyPoolStore | Some s \<Rightarrow> s)
                             \<lparr>pool_headerId := pcfg_headerId cfg,
                              pool_footerId := pcfg_footerId cfg,
                              userMessageIds := orEmpty (pcfg_userMessageIds cfg)\<rparr>)\<rparr>)"
  have w1: "spotlightIndex w1 = spotlightIndex w" "discord w1 = discord w"
    "configDocs w1 = configDocs w"
    using v by (simp_all add: w1_def)
  from v obtain store where st: "messageStore w1 g = Some store" by (cases i) (auto simp: w1_def)
  let ?w2 = "w1\<lparr>spotlightIndex := fst (nextSpotlight (spotlightIndex w) live)\<rparr>"
  let ?rec = "reconcilePool (the (pcfg_channelId cfg)) i live spot (store, snd clip)"
  have run: "checkCommunityPool g i fd w =
      (case ?rec of
         Inl sd \<Rightarrow> (Aborted, putPool g sd ?w2)
       | Inr sd \<Rightarrow> (Completed, persistPool g cfg (fst sd) spot (fst clip) (putPool g sd ?w2)))"
  proof (cases i)
    case True
    with st w1 have "messageStore v g = Some store" by (simp add: w1_def)
    with True show ?thesis
      unfolding checkCommunityPool_def l
      by (simp add: Let_def tr ch' v live_def spot_def clip_def w1_def cong: sum.case_cong)
  next
    case False
    with st have "(case messageStore v g of None \<Rightarrow> emptyPoolStore | Some s \<Rightarrow> s)
                    \<lparr>pool_headerId := pcfg_headerId cfg,
                     pool_footerId := pcfg_footerId cfg,
                     userMessageIds := orEmpty (pcfg_userMessageIds cfg)\<rparr> = store"
      by (simp add: w1_def)
    with False show ?thesis
      unfolding checkCommunityPool_def l
      by (simp add: Let_def tr ch' v cf live_def spot_def clip_def w1_def cong: sum.case_cong)
  qed
  from w1 run show ?thesis by blast
qed

lemma checkCommunityPool_index:
  fixes w :: pool_world and fd :: feed
  assumes cf: "configDocs w g = Some cfg" and tr: "truthy (pcfg_channelId cfg)"
    and ch: "channels (discord w) (the (pcfg_channelId cfg)) \<noteq> None"
  defines "live \<equiv> sortedLiveUsers (liveStreams fd) (getUsersFromDb fd)"
  defines "spot \<equiv> map_option live_twitchId (snd (nextSpotlight (spotlightIndex w) live))"
  shows "spotlightIndex (snd (checkCommunityPool g i fd w)) = fst (nextSpotlight (spotlightIndex w) live)"
    and "fst (checkCommunityPool g i fd w) = Completed \<Longrightarrow>
         Option.bind (configDocs (snd (checkCommunityPool g i fd w)) g) spotlightTwitchId
           = (if truthy spot then spot else None)"
proof -
  from checkCommunityPool_run [OF cf tr ch, where fd = fd and i = i] obtain w1 store where
    run: "checkCommunityPool g i fd w =
             (case reconcilePool (the (pcfg_channelId cfg)) i live spot
                     (store, snd (replaceSpotlightClip (the (pcfg_channelId cfg)) (spotlightClipId cfg)
                        (clipFor fd) spot (discord w))) of
                Inl sd \<Rightarrow>
                  (Aborted, putPool g sd (w1\<lparr>spotlightIndex := fst (nextSpotlight (spotlightIndex w) live)\<rparr>))
              | Inr sd \<Rightarrow>
                  (Completed,
                   persistPool g cfg (fst sd) spot
                     (fst (replaceSpotlightClip (the (pcfg_channelId cfg)) (spotlightClipId cfg)
                        (clipFor fd) spot (discord w)))
                     (putPool g sd (w1\<lparr>spotlightIndex := fst (nextSpotlight (spotlightIndex w) live)\<rparr>))))"
    unfolding live_def spot_def by blast
  show "spotlightIndex (snd (checkCommunityPool g i fd w)) = fst (nextSpotlight (spotlightIndex w) live)"
    unfolding run by (simp add: putPool_def persistPool_def Let_def split: sum.split)
  show "fst (checkCommunityPool g i fd w) = Completed \<Longrightarrow>
         Option.bind (configDocs (snd (checkCommunityPool g i fd w)) g) spotlightTwitchId
           = (if truthy spot then spot else None)"
    unfolding run by (simp add: putPool_def persistPool_def Let_def split: sum.splits)
qed

lemma checkCommunityPool_frame:
  fixes w :: pool_world
  shows "dom (channels (discord (snd (checkCommunityPool g' i fd w)))) = dom (channels (discord w))"
    and "g \<noteq> g' \<Longrightarrow> configDocs (snd (checkCommunityPool g' i fd w)) g = configDocs w g"
proof -
  have l: "discord (snd (loadCommunityPoolChannelConfig g' w)) = discord w"
    "configDocs (snd (loadCommunityPoolChannelConfig g' w)) = configDocs w"
    by (simp_all add: loadCommunityPoolChannelConfig_def Let_def split: option.split)
  have "dom (channels (discord (snd (checkCommunityPool g' i fd w)))) = dom (channels (discord w)) \<and>
        (g \<noteq> g' \<longrightarrow> configDocs (snd (checkCommunityPool g' i fd w)) g = configDocs w g)"
  proof (cases "\<exists>cfg. configDocs w g' = Some cfg \<and> truthy (pcfg_channelId cfg) \<and>
                      channels (discord w) (the (pcfg_channelId cfg)) \<noteq> None")
    case False
    obtain r v where lv: "loadCommunityPoolChannelConfig g' w = (r, v)"
      by (cases "loadCommunityPoolChannelConfig g' w")
    with l have v: "discord v = discord w" "configDocs v = configDocs w" by simp_all
    have r: "r = configDocs w g'"
      using lv by (auto simp: loadCommunityPoolChannelConfig_def Let_def split: option.splits)
    from False have "snd (checkCommunityPool g' i fd w) = v"
      unfolding checkCommunityPool_def lv r
      by (cases "configDocs w g'") (auto simp: Let_def v)
    with v show ?thesis by simp
  next
    case True
    then obtain cfg where cf: "configDocs w g' = Some cfg" "truthy (pcfg_channelId cfg)"
      "channels (discord w) (the (pcfg_channelId cfg)) \<noteq> None" by blast
    from checkCommunityPool_run [OF cf, where fd = fd and i = i] obtain w1 store c live spot d0 k idx where
      w1: "discord w1 = discord w" "configDocs w1 = configDocs w"
      and d0: "dom (channels d0) = dom (channels (discord w))"
      and run: "checkCommunityPool g' i fd w =
             (case reconcilePool c i live spot (store, d0) of
                Inl sd \<Rightarrow> (Aborted, putPool g' sd (w1\<lparr>spotlightIndex := idx\<rparr>))
              | Inr sd \<Rightarrow>
                  (Completed, persistPool g' cfg (fst sd) spot k (putPool g' sd (w1\<lparr>spotlightIndex := idx\<rparr>))))"
      using replaceSpotlightClip_dom by blast
    from reconcilePool_dom [of c i live spot "(store, d0)"] d0 w1
    show ?thesis
      unfolding run
      by (cases "reconcilePool c i live spot (store, d0)")
         (simp_all add: putPool_def persistPool_def Let_def)
  qed
  then show "dom (channels (discord (snd (checkCommunityPool g' i fd w)))) = dom (channels (discord w))"
    and "g \<noteq> g' \<Longrightarrow> configDocs (snd (checkCommunityPool g' i fd w)) g = configDocs w g"
    by blast+
qed


text \<open>
  C10. The rotation index is one field of the state of the Community Pool module, not a
  field per guild. A pass for a guild whose configuration names a channel that can be
  fetched replaces the index by the next step of the rotation over that guild's live list,
  whatever guild set the index before, and when the pass completes the spotlight it
  persists for the guild is the entity at the new index. Hence, after a pass for another
  guild \<open>g'\<close>, the pass for \<open>g\<close> starts from the index that the live list of \<open>g'\<close> produced.
  A bootstrap for any guild leaves the index at zero or at the first step of the rotation,
  independently of the index before.
\<close>

theorem spotlight_index_shared:
  fixes w :: pool_world
  shows
    "(configDocs w g = Some cfg \<and> truthy (pcfg_channelId cfg) \<and>
      channels (discord w) (the (pcfg_channelId cfg)) \<noteq> None \<longrightarrow>
        spotlightIndex (snd (checkCommunityPool g i fd w))
          = fst (nextSpotlight (spotlightIndex w)
                   (sortedLiveUsers (liveStreams fd) (getUsersFromDb fd))) \<and>
        (fst (checkCommunityPool g i fd w) = Completed \<longrightarrow>
           Option.bind (configDocs (snd (checkCommunityPool g i fd w)) g) spotlightTwitchId
             = (let spot = map_option live_twitchId
                             (snd (nextSpotlight (spotlightIndex w)
                                     (sortedLiveUsers (liveStreams fd) (getUsersFromDb fd))))
                in if truthy spot then spot else None))) \<and>
     (g \<noteq> g' \<and>
      configDocs w g = Some cfg \<and> truthy (pcfg_channelId cfg) \<and>
      channels (discord w) (the (pcfg_channelId cfg)) \<noteq> None \<and>
      configDocs w g' = Some cfg' \<and> truthy (pcfg_channelId cfg') \<and>
      channels (discord w) (the (pcfg_channelId cfg')) \<noteq> None \<longrightarrow>
        spotlightIndex (snd (checkCommunityPool g i fd (snd (checkCommunityPool g' i' fd' w))))
          = fst (nextSpotlight
                   (fst (nextSpotlight (spotlightIndex w)
                           (sortedLiveUsers (liveStreams fd') (getUsersFromDb fd'))))
                   (sortedLiveUsers (liveStreams fd) (getUsersFromDb fd))) \<and>
        (fst (checkCommunityPool g i fd (snd (checkCommunityPool g' i' fd' w))) = Completed \<longrightarrow>
           Option.bind
               (configDocs (snd (checkCommunityPool g i fd (snd (checkCommunityPool g' i' fd' w)))) g)
               spotlightTwitchId
             = (let spot = map_option live_twitchId
                             (snd (nextSpotlight
                                     (fst (nextSpotlight (spotlightIndex w)
                                             (sortedLiveUsers (liveStreams fd') (getUsersFromDb fd'))))
                                     (sortedLiveUsers (liveStreams fd) (getUsersFromDb fd))))
                in if truthy spot then spot else None))) \<and>
     spotlightIndex (snd (runInitialCommunityPoolCheck g' c' fd' w))
       \<in> {0, fst (nextSpotlight 0 (sortedLiveUsers (liveStreams fd') (getUsersFromDb fd')))}"
    (is "(?P1 \<longrightarrow> ?A) \<and> (?P2 \<longrightarrow> ?B) \<and> ?C")
proof (intro conjI)
  show "?P1 \<longrightarrow> ?A"
  proof
    assume p: ?P1
    then have cf: "configDocs w g = Some cfg" "truthy (pcfg_channelId cfg)"
      "channels (discord w) (the (pcfg_channelId cfg)) \<noteq> None" by blast+
    from checkCommunityPool_index [OF cf, where fd = fd and i = i] show ?A
      by (simp add: Let_def)
  qed
  show "?P2 \<longrightarrow> ?B"
  proof
    assume p: ?P2
    then have ne: "g \<noteq> g'" and cf: "configDocs w g = Some cfg" "truthy (pcfg_channelId cfg)"
      "channels (discord w) (the (pcfg_channelId cfg)) \<noteq> None"
      and cf': "configDocs w g' = Some cfg'" "truthy (pcfg_channelId cfg')"
      "channels (discord w) (the (pcfg_channelId cfg')) \<noteq> None" by blast+
    let ?w1 = "snd (checkCommunityPool g' i' fd' w)"
    have idx: "spotlightIndex ?w1
                 = fst (nextSpotlight (spotlightIndex w)
                          (sortedLiveUsers (liveStreams fd') (getUsersFromDb fd')))"
      by (rule checkCommunityPool_index(1) [OF cf'])
    have c1: "configDocs ?w1 g = Some cfg"
      using checkCommunityPool_frame(2) [OF ne, of i' fd' w] cf(1) by simp
    have "the (pcfg_channelId cfg) \<in> dom (channels (discord w))" using cf(3) by auto
    then have c3: "channels (discord ?w1) (the (pcfg_channelId cfg)) \<noteq> None"
      using checkCommunityPool_frame(1) [of g' i' fd' w] by auto
    from checkCommunityPool_index [OF c1 cf(2) c3, where fd = fd and i = i] show ?B
      by (simp add: Let_def idx)
  qed
  show ?C by (rule runInitialCommunityPoolCheck_index)
qed


lemma sampleSecondGuildPass:
  "fst (checkCommunityPool ''g1'' False sampleFeed
          (snd (checkCommunityPool ''g2'' False sampleFeed samplePoolWorld))) = Completed"
  unfolding checkCommunityPool_def reconcilePool_def samplePoolLive
  by (simp add: pool_defs samplePoolWorld_def sampleDiscord_def sampleFeed_def surface_defs Let_def)

theorem spotlight_index_shared_witness:
  "Option.bind (configDocs (snd (checkCommunityPool ''g1'' False sampleFeed samplePoolWorld)) ''g1'')
       spotlightTwitchId = Some ''c'' \<and>
   Option.bind
       (configDocs (snd (checkCommunityPool ''g1'' False sampleFeed
                           (snd (checkCommunityPool ''g2'' False sampleFeed samplePoolWorld)))) ''g1'')
       spotlightTwitchId = Some ''b'' \<and>
   spotlightIndex (snd (checkCommunityPool ''g1'' False sampleFeed
                           (snd (checkCommunityPool ''g2'' False sampleFeed samplePoolWorld)))) = 0"
proof -
  let ?c1 = "the (configDocs samplePoolWorld ''g1'')"
  let ?c2 = "the (configDocs samplePoolWorld ''g2'')"
  note t = spotlight_index_shared [where w = samplePoolWorld and g = "''g1''" and cfg = ?c1
      and g' = "''g2''" and cfg' = ?c2 and i = False and i' = False and fd = sampleFeed
      and fd' = sampleFeed and c' = "''ch2''"]
  have h: "configDocs samplePoolWorld ''g1'' = Some ?c1" "pcfg_channelId ?c1 = Some ''ch''"
    "configDocs samplePoolWorld ''g2'' = Some ?c2" "pcfg_channelId ?c2 = Some ''ch2''"
    "channels (discord samplePoolWorld) ''ch'' \<noteq> None"
    "channels (discord samplePoolWorld) ''ch2'' \<noteq> None"
    "spotlightIndex samplePoolWorld = 0"
    by (simp_all add: samplePoolWorld_def sampleDiscord_def)
  have ok: "fst (checkCommunityPool ''g1'' False sampleFeed samplePoolWorld) = Completed"
    using samplePoolPass by simp
  from t h ok sampleSecondGuildPass show ?thesis
    by (simp add: samplePoolLive nextSpotlight_def Let_def)
qed

section \<open>Properties of the Raid Pile timers\<close>

lemma timersRecorded_clearTracker:
  assumes "timersRecorded w"
  shows "timersRecorded (clearTracker g w)"
    and "list_all (\<lambda>hg. snd hg \<noteq> g) (intervals (clearTracker g w))"
    and "activeTrackers (clearTracker g w) g = None"
    and "nextHandle (clearTracker g w) = nextHandle w"
proof -
  show "activeTrackers (clearTracker g w) g = None" "nextHandle (clearTracker g w) = nextHandle w"
    by (simp_all add: clearTracker_def split: option.split)
  show "timersRecorded (clearTracker g w)"
    using assms
    by (auto simp: timersRecorded_def clearTracker_def list_all_iff distinct_map_filter
          split: option.split)
  show "list_all (\<lambda>hg. snd hg \<noteq> g) (intervals (clearTracker g w))"
    using assms
    by (auto simp: timersRecorded_def clearTracker_def list_all_iff split: option.split)
qed

lemma timersRecorded_registerInterval:
  assumes "timersRecorded w" "activeTrackers w g = None"
  shows "timersRecorded (registerInterval g w)"
  using assms
  by (auto simp: timersRecorded_def registerInterval_def list_all_iff)

lemma timersRecorded_start:
  "timersRecorded w \<Longrightarrow> timersRecorded (startRaidPileTracking g w)"
  by (simp add: startRaidPileTracking_def timersRecorded_registerInterval)

lemma timersRecorded_cong:
  assumes "timersRecorded w" "intervals w' = intervals w" "activeTrackers w' = activeTrackers w"
    "nextHandle w' = nextHandle w"
  shows "timersRecorded w'"
  using assms by (simp add: timersRecorded_def)

lemma checkRaidPile_timers:
  "intervals (snd (checkRaidPile g fd w)) = intervals w \<and>
   activeTrackers (snd (checkRaidPile g fd w)) = activeTrackers w \<and>
   nextHandle (snd (checkRaidPile g fd w)) = nextHandle w"
  unfolding checkRaidPile_def loadRaidPileChannelConfig_def setRaidPileChannel_def
  by (simp add: Let_def split: option.split)

lemma stopRaidPileTracking_timers:
  "intervals (snd (stopRaidPileTracking g w)) = intervals (clearTracker g w) \<and>
   activeTrackers (snd (stopRaidPileTracking g w)) = activeTrackers (clearTracker g w) \<and>
   nextHandle (snd (stopRaidPileTracking g w)) = nextHandle (clearTracker g w)"
  unfolding stopRaidPileTracking_def
  by (simp add: Let_def split: option.split)

lemma runInitialRaidPileCheck_timers:
  "\<exists>v. intervals v = intervals (clearTracker g w) \<and>
       activeTrackers v = activeTrackers (clearTracker g w) \<and>
       nextHandle v = nextHandle (clearTracker g w) \<and>
       (snd (runInitialRaidPileCheck g c fd w) = v \<or>
        snd (runInitialRaidPileCheck g c fd w) = startRaidPileTracking g v)"
proof -
  let ?w0 = "(clearTracker g w)\<lparr>messageStore := (messageStore (clearTracker g w))(g \<mapsto> emptyPileStore)\<rparr>"
  let ?live = "sortedLiveUsers (liveStreams fd) (getUsersFromDb fd)"
  let ?holder = "(case ?live of [] \<Rightarrow> None | u # _ \<Rightarrow> Some (live_twitchId u))"
  let ?clip = "replaceSpotlightClip c None (clipFor fd) ?holder (discord (clearTracker g w))"
  let ?ps = "[HeaderEmbed, HolderEmbed ?holder, LeaderboardMessage,
              QueueEmbed (map live_twitchId (tl ?live)), FooterEmbed (length ?live)]"
  obtain r d where sa: "sendAll c ?ps (snd ?clip) = (r, d)" by (cases "sendAll c ?ps (snd ?clip)")
  show ?thesis
  proof (cases "\<exists>h ho l q f. r = Some [h, ho, l, q, f]")
    case True
    then obtain h ho l q f where r: "r = Some [h, ho, l, q, f]" by blast
    let ?v = "setRaidPileChannel g c
                 \<lparr>pile_headerId = Some h, holderId = Some ho, clipId = fst ?clip,
                  leaderboardId = Some l, queueId = Some q, pile_footerId = Some f\<rparr>
                 (?w0\<lparr>discord := d\<rparr>)"
    have "snd (runInitialRaidPileCheck g c fd w) = startRaidPileTracking g ?v"
      unfolding runInitialRaidPileCheck_def
      by (simp add: Let_def sa [unfolded r] del: sendAll.simps)
    then show ?thesis
      by (intro exI[of _ ?v]) (simp add: setRaidPileChannel_def)
  next
    case False
    have "snd (runInitialRaidPileCheck g c fd w) = ?w0\<lparr>discord := d\<rparr>"
    proof (cases r)
      case None
      show ?thesis
        unfolding runInitialRaidPileCheck_def
        by (simp add: Let_def sa [unfolded None] del: sendAll.simps)
    next
      case (Some ms)
      with False have "\<not> (\<exists>h ho l q f. ms = [h, ho, l, q, f])" by simp
      then show ?thesis
        unfolding runInitialRaidPileCheck_def
        by (simp add: Let_def sa [unfolded Some] del: sendAll.simps
              split: list.split)
    qed
    then show ?thesis by (intro exI[of _ "?w0\<lparr>discord := d\<rparr>"]) simp
  qed
qed

lemma timersRecorded_pileCall:
  assumes "timersRecorded w"
  shows "timersRecorded (pileCall a w)"
proof (cases a)
  case (StartCall g)
  with assms show ?thesis by (simp add: timersRecorded_start)
next
  case (BootstrapCall g c fd)
  from runInitialRaidPileCheck_timers [of g w c fd] obtain v where
    v: "intervals v = intervals (clearTracker g w)"
      "activeTrackers v = activeTrackers (clearTracker g w)"
      "nextHandle v = nextHandle (clearTracker g w)"
    and r: "snd (runInitialRaidPileCheck g c fd w) = v \<or>
            snd (runInitialRaidPileCheck g c fd w) = startRaidPileTracking g v"
    by blast
  have "timersRecorded v"
    by (rule timersRecorded_cong [OF timersRecorded_clearTracker(1) [OF assms, of g] v])
  with r BootstrapCall show ?thesis by (auto simp: timersRecorded_start)
next
  case (StopCall g)
  have "timersRecorded (snd (stopRaidPileTracking g w))"
    by (rule timersRecorded_cong [OF timersRecorded_clearTracker(1) [OF assms, of g]])
       (simp_all add: stopRaidPileTracking_timers)
  with StopCall show ?thesis by simp
next
  case (IntervalTick h fd)
  have "\<And>g. timersRecorded (snd (checkRaidPile g fd w))"
    by (rule timersRecorded_cong [OF assms]) (simp_all add: checkRaidPile_timers)
  with IntervalTick assms show ?thesis by (simp split: option.split)
qed

lemma timersRecorded_fold:
  "timersRecorded w \<Longrightarrow> timersRecorded (fold pileCall calls w)"
  by (induction calls arbitrary: w) (simp_all add: timersRecorded_pileCall)

lemma timersRecorded_one:
  assumes "timersRecorded w"
  shows "length (timersOf g w) \<le> 1 \<and> set (timersOf g w) \<subseteq> set_option (activeTrackers w g)"
proof -
  have d: "distinct (map fst (intervals w))"
    and a: "\<And>h g'. (h, g') \<in> set (intervals w) \<Longrightarrow> activeTrackers w g' = Some h"
    using assms by (auto simp: timersRecorded_def list_all_iff)
  have dx: "distinct (timersOf g w)" using d by (simp add: timersOf_def distinct_map_filter)
  have sub: "set (timersOf g w) \<subseteq> set_option (activeTrackers w g)"
    using a by (auto simp: timersOf_def)
  have "card (set (timersOf g w)) \<le> card (set_option (activeTrackers w g))"
    by (rule card_mono [OF _ sub]) simp
  also have "\<dots> \<le> 1" by (cases "activeTrackers w g") simp_all
  finally have "length (timersOf g w) \<le> 1" using dx by (simp add: distinct_card)
  with sub show ?thesis by simp
qed

text \<open>
  X1. The Raid Pile tracker keeps at most one interval timer per guild: after any sequence
  of \<open>start\<close>, bootstrap and \<open>stop\<close> calls and interval ticks, for any guilds, channels and
  feeds, starting from a state in which every live interval is the one recorded for its
  guild, a guild has at most one live interval, and it is the one in \<open>activeTrackers\<close>.
\<close>

theorem raid_pile_one_timer:
  assumes "timersRecorded w"
  shows "length (timersOf g (fold pileCall calls w)) \<le> 1 \<and>
         set (timersOf g (fold pileCall calls w))
           \<subseteq> set_option (activeTrackers (fold pileCall calls w) g)"
  by (rule timersRecorded_one [OF timersRecorded_fold [OF assms]])

theorem raid_pile_one_timer_witness:
  "timersRecorded idlePileWorld \<and>
   timersOf ''g1''
     (fold pileCall
        [StartCall ''g1'', BootstrapCall ''g1'' ''ch'' sampleFeed, StartCall ''g1'',
         BootstrapCall ''g1'' ''ch'' sampleFeed, StartCall ''g1'']
        idlePileWorld) = [2] \<and>
   length (timersOf ''g1''
     (fold pileCall
        [StartCall ''g1'', BootstrapCall ''g1'' ''ch'' sampleFeed, StartCall ''g1'',
         BootstrapCall ''g1'' ''ch'' sampleFeed, StartCall ''g1'']
        idlePileWorld)) \<le> 1"
proof -
  have i: "timersRecorded idlePileWorld"
    by (simp add: timersRecorded_def idlePileWorld_def)
  have e: "timersOf ''g1''
     (fold pileCall
        [StartCall ''g1'', BootstrapCall ''g1'' ''ch'' sampleFeed, StartCall ''g1'',
         BootstrapCall ''g1'' ''ch'' sampleFeed, StartCall ''g1'']
        idlePileWorld) = [2]"
    unfolding fold_simps pileCall.simps runInitialRaidPileCheck_def samplePoolLive
    by (simp add: Let_def clearTracker_def idlePileWorld_def sampleDiscord_def sampleFeed_def send_def
        replaceSpotlightClip_def startRaidPileTracking_def registerInterval_def
        setRaidPileChannel_def emptyPileStore_def timersOf_def deleteMessage_def)
  from raid_pile_one_timer [OF i, of "''g1''"
      "[StartCall ''g1'', BootstrapCall ''g1'' ''ch'' sampleFeed, StartCall ''g1'',
         BootstrapCall ''g1'' ''ch'' sampleFeed, StartCall ''g1'']"] i e
  show ?thesis by simp
qed

end
